theory Spec2Isabelle
  imports Complex_Main
begin

section \<open>Conventions of the embedding\<close>

text \<open>
  The Go sources of gitvigil are embedded function by function, under the names of the
  source.  Go's \<^verbatim>\<open>int\<close> has 64 bits on the supported platforms and its addition wraps
  around: \<open>wrap64\<close> maps the exact result to the value of the 64-bit register, and the
  sum of the scores of the scorecard is written with it.  The counts of commits and of
  lines are read from 32-bit columns of the database, far from the 64-bit range, and they
  are modelled by \<^typ>\<open>int\<close>; the difference of two instants is written out with its
  bounds.  Go's integer division truncates towards zero, whereas \<open>div\<close> on \<^typ>\<open>int\<close>
  rounds down: \<open>go_quot\<close> and \<open>go_rem\<close> are Go's \<^verbatim>\<open>/\<close> and \<^verbatim>\<open>%\<close>.  A Go \<^verbatim>\<open>string\<close> is
  a sequence of bytes and is modelled by \<^typ>\<open>string\<close>.  A Go map read with \<^verbatim>\<open>m[k]\<close>
  yields the zero value for an absent key.
\<close>

definition wrap64 :: "int \<Rightarrow> int" where
  "wrap64 x = (x + 2 ^ 63) mod 2 ^ 64 - 2 ^ 63"

definition go_quot :: "int \<Rightarrow> int \<Rightarrow> int" where
  "go_quot a b = sgn a * sgn b * (\<bar>a\<bar> div \<bar>b\<bar>)"

definition go_rem :: "int \<Rightarrow> int \<Rightarrow> int" where
  "go_rem a b = a - b * go_quot a b"

definition map_get :: "('k \<rightharpoonup> int) \<Rightarrow> 'k \<Rightarrow> int" where
  "map_get m k = (case m k of None \<Rightarrow> 0 | Some v \<Rightarrow> v)"

definition newline :: char where
  "newline = CHR 0x0A"

section \<open>Floating point\<close>

text \<open>
  A finite \<^verbatim>\<open>float64\<close> is modelled by the real number it denotes.  Every operation of
  the processor returns the exact result rounded to the nearest binary64 number, ties going
  to the even significand; \<open>float64\<close> is that rounding: for \<open>2\<^sup>e \<le> \<bar>x\<bar> < 2\<^sup>e\<^sup>+\<^sup>1\<close> the
  representable numbers are the multiples of \<open>2\<^sup>e\<^sup>-\<^sup>5\<^sup>2\<close> (of \<open>2\<^sup>-\<^sup>1\<^sup>0\<^sup>7\<^sup>4\<close> in the subnormal
  range).  No quantity below comes near \<open>2\<^sup>1\<^sup>0\<^sup>2\<^sup>4\<close>, so overflow to infinity is not
  modelled; the operations that can divide by zero are modelled apart, where they occur.
  The compiler for amd64 does not fuse a multiplication with an addition, and the model
  rounds after every operation.
\<close>

function log2_floor :: "nat \<Rightarrow> nat" where
  "log2_floor n = (if n < 2 then 0 else Suc (log2_floor (n div 2)))"
  by pat_completeness auto
termination
  by (relation "measure id") auto

declare log2_floor.simps [simp del]

text \<open>The binary exponent \<open>\<lfloor>log\<^sub>2 x\<rfloor>\<close> of a positive real.\<close>

definition exponent :: "real \<Rightarrow> int" where
  "exponent x =
     (if 1 \<le> x then int (log2_floor (nat \<lfloor>x\<rfloor>))
      else let k = int (log2_floor (nat \<lfloor>1 / x\<rfloor>))
           in if x = 2 powi (- k) then - k else - k - 1)"

definition round_even :: "real \<Rightarrow> int" where
  "round_even y =
     (let f = \<lfloor>y\<rfloor>; r = y - of_int f
      in if r < 1 / 2 then f
         else if 1 / 2 < r then f + 1
         else if even f then f else f + 1)"

definition float64 :: "real \<Rightarrow> real" where
  "float64 x =
     (if x = 0 then 0
      else let e = max (exponent \<bar>x\<bar>) (- 1022);
               ulp = 2 powi (e - 52)
           in of_int (round_even (x / ulp)) * ulp)"

text \<open>
  The smallest positive normal number of binary64.  From there on the rounding changes a
  number by at most the fraction \<open>2\<^sup>-\<^sup>5\<^sup>3\<close> of it.
\<close>

definition min_normal :: real where
  "min_normal = 2 powi (- 1022)"

text \<open>
  Two numbers that are not negative are \<open>near k\<close> when each is at least the other one
  times \<open>(1 - 2\<^sup>-\<^sup>5\<^sup>3)\<^sup>k\<close>, as a computed quantity and the exact one are after \<open>k\<close>
  roundings of normal numbers.
\<close>

definition near :: "nat \<Rightarrow> real \<Rightarrow> real \<Rightarrow> bool" where
  "near k a b \<longleftrightarrow>
     0 \<le> a \<and> 0 \<le> b \<and> b * (1 - 1 / 2 ^ 53) ^ k \<le> a \<and> a * (1 - 1 / 2 ^ 53) ^ k \<le> b"

text \<open>The conversion \<^verbatim>\<open>int(x)\<close> of a finite \<^verbatim>\<open>float64\<close> discards the fraction.\<close>

definition go_int :: "real \<Rightarrow> int" where
  "go_int x = (if 0 \<le> x then \<lfloor>x\<rfloor> else \<lceil>x\<rceil>)"

section \<open>Instants and durations (package time of the Go library)\<close>

text \<open>
  A \<^verbatim>\<open>time.Time\<close> is modelled by the number of nanoseconds since the zero instant
  (1 January of year 1, UTC), for which \<^verbatim>\<open>IsZero\<close> holds.  A \<^verbatim>\<open>time.Duration\<close> is a
  64-bit count of nanoseconds.  The library defines
  \<^item> \<^verbatim>\<open>t.Sub(u)\<close> as the difference, replaced by the largest or the smallest duration when
    it does not fit;
  \<^item> \<^verbatim>\<open>d.Hours()\<close> as
    \<^verbatim>\<open>hour := d / Hour; nsec := d % Hour; return float64(hour) + float64(nsec)/(60*60*1e9)\<close>.
\<close>

type_synonym Time = int
type_synonym Duration = int

definition IsZero :: "Time \<Rightarrow> bool" where
  "IsZero t = (t = 0)"

definition minDuration :: Duration where
  "minDuration = - (2 ^ 63)"

definition maxDuration :: Duration where
  "maxDuration = 2 ^ 63 - 1"

definition Sub :: "Time \<Rightarrow> Time \<Rightarrow> Duration" where
  "Sub t u = (if t - u < minDuration then minDuration
              else if maxDuration < t - u then maxDuration
              else t - u)"

definition Hour :: Duration where
  "Hour = 3600000000000"

definition Hours :: "Duration \<Rightarrow> real" where
  "Hours d =
     (let hour = go_quot d Hour;
          nsec = go_rem d Hour
      in float64 (float64 (of_int hour) + float64 (float64 (of_int nsec) / (60 * 60 * 1000000000))))"

section \<open>Configuration (package config)\<close>

record Config =
  WebhookSecret :: string
  BackdateSuspiciousHours :: int
  BackdateCriticalHours :: int
  StreakInactivityHours :: int

section \<open>Signature verification (package webhook)\<close>

text \<open>
  Bytes and strings are both \<^typ>\<open>string\<close>.  HMAC-SHA256 comes from the Go library and is a
  parameter \<open>mac\<close> of the model, applied to the key and the message.  \<^verbatim>\<open>hmac.Equal\<close> is
  equality of byte strings.  What \<^verbatim>\<open>fmt.Printf\<close> writes to the standard output is
  returned beside the result.
\<close>

datatype sig_error = ErrMissingSignature | ErrInvalidSignature | ErrSignatureMismatch

definition hex_digit :: "nat \<Rightarrow> char" where
  "hex_digit n = ''0123456789abcdef'' ! n"

text \<open>The verb \<^verbatim>\<open>%x\<close> on bytes or on a string: two lower-case digits for each byte.\<close>

definition hex_byte :: "char \<Rightarrow> string" where
  "hex_byte c = [hex_digit (of_char c div 16), hex_digit (of_char c mod 16)]"

definition hex :: "string \<Rightarrow> string" where
  "hex bs = concat (map hex_byte bs)"

definition fromHexChar :: "char \<Rightarrow> nat option" where
  "fromHexChar c =
     (let n = of_char c :: nat
      in if of_char CHR ''0'' \<le> n \<and> n \<le> of_char CHR ''9'' then Some (n - of_char CHR ''0'')
         else if of_char CHR ''a'' \<le> n \<and> n \<le> of_char CHR ''f'' then Some (n - of_char CHR ''a'' + 10)
         else if of_char CHR ''A'' \<le> n \<and> n \<le> of_char CHR ''F'' then Some (n - of_char CHR ''A'' + 10)
         else None)"

text \<open>\<^verbatim>\<open>hex.DecodeString\<close>; \<open>None\<close> stands for its errors (odd length, invalid digit).\<close>

fun DecodeString :: "string \<Rightarrow> string option" where
  "DecodeString [] = Some []"
| "DecodeString [c] = None"
| "DecodeString (a # b # rest) =
     (case (fromHexChar a, fromHexChar b) of
        (Some x, Some y) \<Rightarrow>
          (case DecodeString rest of
             None \<Rightarrow> None
           | Some bs \<Rightarrow> Some (char_of (16 * x + y) # bs))
      | _ \<Rightarrow> None)"

definition HasPrefix :: "string \<Rightarrow> string \<Rightarrow> bool" where
  "HasPrefix s pre = (take (length pre) s = pre)"

definition TrimPrefix :: "string \<Rightarrow> string \<Rightarrow> string" where
  "TrimPrefix s pre = (if HasPrefix s pre then drop (length pre) s else s)"

text \<open>The result is the error (\<open>None\<close> for \<^verbatim>\<open>nil\<close>) and the lines printed.\<close>

definition ValidateSignature ::
  "(string \<Rightarrow> string \<Rightarrow> string) \<Rightarrow> string \<Rightarrow> string \<Rightarrow> string \<Rightarrow> sig_error option \<times> string list"
where
  "ValidateSignature mac payload signature secret =
     (if signature = [] then (Some ErrMissingSignature, [])
      else if \<not> HasPrefix signature ''sha256='' then (Some ErrInvalidSignature, [])
      else
        let signatureHex = TrimPrefix signature ''sha256='' in
        case DecodeString signatureHex of
          None \<Rightarrow> (Some ErrInvalidSignature, [])
        | Some signatureBytes \<Rightarrow>
            let expected = mac secret payload in
            if expected \<noteq> signatureBytes then
              (Some ErrSignatureMismatch,
               [''DEBUG: expected='' @ hex expected @ '' received='' @ hex signatureBytes @ [newline]])
            else (None, []))"

text \<open>
  The part of \<^verbatim>\<open>ServeHTTP\<close> that validates the signature.  A log event is its level, its
  fields in order and its message; the outcome tells whether the request goes on to the
  routing or is answered with status 401.
\<close>

datatype log_field = StrField string string | IntField string int | ErrField sig_error

record log_event =
  log_level :: string
  log_fields :: "log_field list"
  log_msg :: string

record validation_outcome =
  accepted :: bool
  logged :: "log_event list"
  printed :: "string list"

definition validate_request ::
  "(string \<Rightarrow> string \<Rightarrow> string) \<Rightarrow> Config \<Rightarrow> string \<Rightarrow> string \<Rightarrow> validation_outcome"
where
  "validate_request mac cfg body signature =
     (if WebhookSecret cfg \<noteq> [] then
        (case ValidateSignature mac body signature (WebhookSecret cfg) of
           (Some err, out) \<Rightarrow>
             \<lparr>accepted = False,
              logged = [\<lparr>log_level = ''warn'',
                         log_fields = [ErrField err,
                                   StrField ''signature_header'' signature,
                                   IntField ''body_len'' (int (length body)),
                                   IntField ''secret_len'' (int (length (WebhookSecret cfg))),
                                   StrField ''secret_hex'' (hex (WebhookSecret cfg))],
                         log_msg = ''signature validation failed''\<rparr>],
              printed = out\<rparr>
         | (None, out) \<Rightarrow> \<lparr>accepted = True, logged = [], printed = out\<rparr>)
      else \<lparr>accepted = True, logged = [], printed = []\<rparr>)"

section \<open>Conventional commits: the parser of the webhook (package webhook)\<close>

text \<open>
  \<^verbatim>\<open>parseConventionalCommit\<close> is the hand-written parser that \<^verbatim>\<open>processCommit\<close> calls
  before it stores a commit.  Its loops range over the runes of a string and compare them with
  the ASCII characters \<^verbatim>\<open>:\<close>, newline, \<^verbatim>\<open>(\<close> and \<^verbatim>\<open>)\<close>; no byte of a multi-byte
  UTF-8 sequence is ASCII, so the loops are modelled over the bytes and the indices are byte
  offsets, as in Go.
\<close>

text \<open>The loop that looks for the first colon of the first line; \<open>- 1\<close> when there is none.\<close>

fun find_colon :: "nat \<Rightarrow> string \<Rightarrow> int" where
  "find_colon i [] = - 1"
| "find_colon i (c # cs) =
     (if c = CHR '':'' then int i
      else if c = newline then - 1
      else find_colon (Suc i) cs)"

fun index_from :: "nat \<Rightarrow> string \<Rightarrow> char \<Rightarrow> int" where
  "index_from i [] c = - 1"
| "index_from i (r # rs) c = (if r = c then int i else index_from (Suc i) rs c)"

definition indexOf :: "string \<Rightarrow> char \<Rightarrow> int" where
  "indexOf s c = index_from 0 s c"

text \<open>The map \<^verbatim>\<open>validTypes\<close>, read with the zero value \<^verbatim>\<open>false\<close> for an absent key.\<close>

definition validTypes :: "string \<Rightarrow> bool" where
  "validTypes t = (t \<in> set [''feat'', ''fix'', ''docs'', ''style'', ''refactor'', ''perf'',
                               ''test'', ''build'', ''ci'', ''chore'', ''revert''])"

text \<open>The slice \<^verbatim>\<open>s[i:j]\<close>, used where the source has established \<open>i \<le> j \<le> len(s)\<close>.\<close>

definition slice :: "string \<Rightarrow> nat \<Rightarrow> nat \<Rightarrow> string" where
  "slice s i j = drop i (take j s)"

definition parseConventionalCommit :: "string \<Rightarrow> bool \<times> string \<times> string" where
  "parseConventionalCommit message =
     (if length message = 0 then (False, [], [])
      else
        let colonIdx = find_colon 0 message in
        if colonIdx = - 1 \<or> colonIdx = 0 then (False, [], [])
        else
          let prefix = take (nat colonIdx) message;
              parenStart = indexOf prefix CHR ''('';
              parsed =
                (if parenStart \<noteq> - 1 then
                   (let parenEnd = indexOf prefix CHR '')''
                    in if parenEnd > parenStart then
                         Some (take (nat parenStart) prefix,
                               slice prefix (nat (parenStart + 1)) (nat parenEnd))
                       else None)
                 else Some (prefix, []))
          in case parsed of
               None \<Rightarrow> (False, [], [])
             | Some (commitType, scope) \<Rightarrow>
                 if \<not> validTypes commitType then (False, [], [])
                 else (True, commitType, scope))"

section \<open>Storing the commits of a push (package webhook)\<close>

text \<open>
  The handler talks to PostgreSQL.  The store below holds the tables that \<^verbatim>\<open>processCommit\<close>
  and \<^verbatim>\<open>updateContributor\<close> read and write, with the columns of the migrations; a
  nullable column that an SQL expression of the handler inspects is an \<^typ>\<open>'a option\<close>,
  \<open>None\<close> being \<^verbatim>\<open>NULL\<close>.  The Go driver sends a Go \<^verbatim>\<open>string\<close> as a text value, the
  empty string included, never as \<^verbatim>\<open>NULL\<close>.  A statement fails when a text is longer than
  its \<^verbatim>\<open>VARCHAR\<close> column; the database is otherwise taken to be reachable and to accept
  the statements.
\<close>

text \<open>The accessors \<^verbatim>\<open>GetID\<close>, \<^verbatim>\<open>GetMessage\<close>, \<^verbatim>\<open>GetAuthor().GetName\<close>, ... of a
  \<^verbatim>\<open>github.HeadCommit\<close>; an absent field reads as the empty string.\<close>

record HeadCommit =
  ID :: string
  Message :: string
  AuthorName :: string
  AuthorEmail :: string
  AuthorLogin :: string
  Timestamp :: Time

record commit_row =
  c_repository_id :: int
  c_sha :: string
  c_message :: string
  c_author_email :: string
  c_author_name :: string
  c_author_date :: Time
  c_committer_date :: Time
  c_pushed_at :: Time
  c_additions :: int
  c_deletions :: int
  c_is_conventional :: bool
  c_conventional_type :: string
  c_conventional_scope :: string
  c_is_backdated :: bool
  c_backdate_hours :: int

record contributor_row =
  k_repository_id :: int
  k_github_login :: "string option"
  k_email :: "string option"
  k_name :: "string option"
  k_total_commits :: int
  k_first_commit_at :: "Time option"
  k_last_commit_at :: "Time option"

record alert_row =
  a_repository_id :: int
  a_commit_sha :: "string option"
  a_alert_type :: string
  a_severity :: string
  a_title :: string
  a_description :: string
  a_author_date :: Time
  a_pushed_at :: Time
  a_backdate_hours :: int

text \<open>\<open>repositories\<close> maps the \<^verbatim>\<open>github_id\<close> of a stored repository to its \<^verbatim>\<open>id\<close>.\<close>

record store =
  repositories :: "int \<rightharpoonup> int"
  commits :: "commit_row list"
  contributors :: "contributor_row list"
  alerts :: "alert_row list"

datatype db_error = ErrNoRows | ErrValueTooLong

definition COALESCE :: "'a option \<Rightarrow> 'a option \<Rightarrow> 'a option" where
  "COALESCE a b = (case a of None \<Rightarrow> b | Some v \<Rightarrow> Some v)"

text \<open>
  \<^verbatim>\<open>INSERT INTO contributors ... VALUES ($1, $2, $3, $4, 1, $5, $5) ON CONFLICT
  (repository_id, email) DO UPDATE SET github_login = COALESCE(EXCLUDED.github_login,
  contributors.github_login), name = COALESCE(EXCLUDED.name, contributors.name),
  total_commits = contributors.total_commits + 1, last_commit_at = $5\<close>.
  The row proposed for insertion is \<open>excluded\<close>.
\<close>

definition conflicts :: "contributor_row \<Rightarrow> contributor_row \<Rightarrow> bool" where
  "conflicts excluded row =
     (k_repository_id row = k_repository_id excluded \<and> k_email excluded \<noteq> None
      \<and> k_email row = k_email excluded)"

definition do_update :: "contributor_row \<Rightarrow> contributor_row \<Rightarrow> contributor_row" where
  "do_update excluded row =
     row\<lparr>k_github_login := COALESCE (k_github_login excluded) (k_github_login row),
         k_name := COALESCE (k_name excluded) (k_name row),
         k_total_commits := k_total_commits row + 1,
         k_last_commit_at := k_last_commit_at excluded\<rparr>"

definition upsert_contributor :: "contributor_row \<Rightarrow> contributor_row list \<Rightarrow> contributor_row list" where
  "upsert_contributor excluded rows =
     (if list_ex (conflicts excluded) rows
      then map (\<lambda>row. if conflicts excluded row then do_update excluded row else row) rows
      else rows @ [excluded])"

definition updateContributor :: "store \<Rightarrow> int \<Rightarrow> HeadCommit \<Rightarrow> Time \<Rightarrow> db_error option \<times> store" where
  "updateContributor st repoID commit receiveTime =
     (let excluded = \<lparr>k_repository_id = repoID,
                       k_github_login = Some (AuthorLogin commit),
                       k_email = Some (AuthorEmail commit),
                       k_name = Some (AuthorName commit),
                       k_total_commits = 1,
                       k_first_commit_at = Some receiveTime,
                       k_last_commit_at = Some receiveTime\<rparr>
      in if 255 < length (AuthorLogin commit) \<or> 255 < length (AuthorEmail commit)
            \<or> 255 < length (AuthorName commit)
         then (Some ErrValueTooLong, st)
         else (None, st\<lparr>contributors := upsert_contributor excluded (contributors st)\<rparr>))"

text \<open>\<^verbatim>\<open>INSERT INTO commits ... ON CONFLICT (sha) DO NOTHING\<close>.\<close>

definition insert_commit :: "commit_row \<Rightarrow> commit_row list \<Rightarrow> commit_row list" where
  "insert_commit row rows =
     (if list_ex (\<lambda>r. c_sha r = c_sha row) rows then rows else rows @ [row])"

definition commit_fits :: "commit_row \<Rightarrow> bool" where
  "commit_fits row =
     (length (c_sha row) \<le> 40 \<and> length (c_author_email row) \<le> 255
      \<and> length (c_author_name row) \<le> 255 \<and> length (c_conventional_type row) \<le> 50
      \<and> length (c_conventional_scope row) \<le> 100)"

text \<open>
  \<^verbatim>\<open>processCommit\<close>.  The result is the error it returns (\<open>None\<close> for \<^verbatim>\<open>nil\<close>) and the
  store it leaves.  A failure of the alert or of the contributor statement is only logged.
\<close>

definition processCommit :: "Config \<Rightarrow> store \<Rightarrow> int \<Rightarrow> HeadCommit \<Rightarrow> Time \<Rightarrow> db_error option \<times> store" where
  "processCommit cfg st repoGithubID commit receiveTime =
     (case repositories st repoGithubID of
        None \<Rightarrow> (Some ErrNoRows, st)
      | Some repoID \<Rightarrow>
          let authorDate = Timestamp commit;
              backdateHours = go_int (Hours (Sub receiveTime authorDate));
              isBackdated = (backdateHours > BackdateSuspiciousHours cfg);
              (isConventional, conventionalType, conventionalScope) =
                 parseConventionalCommit (Message commit);
              row = \<lparr>c_repository_id = repoID, c_sha = ID commit, c_message = Message commit,
                     c_author_email = AuthorEmail commit, c_author_name = AuthorName commit,
                     c_author_date = authorDate, c_committer_date = Timestamp commit,
                     c_pushed_at = receiveTime, c_additions = 0, c_deletions = 0,
                     c_is_conventional = isConventional,
                     c_conventional_type = conventionalType,
                     c_conventional_scope = conventionalScope,
                     c_is_backdated = isBackdated, c_backdate_hours = backdateHours\<rparr>
          in if \<not> commit_fits row then (Some ErrValueTooLong, st)
             else
               let st1 = st\<lparr>commits := insert_commit row (commits st)\<rparr>;
                   st2 = (if isBackdated then
                            (let critical = (backdateHours > BackdateCriticalHours cfg);
                                 severity = (if critical then ''critical'' else ''warning'');
                                 alertType = (if critical then ''backdate_critical''
                                              else ''backdate_suspicious'')
                             in st1\<lparr>alerts := alerts st1 @
                                    [\<lparr>a_repository_id = repoID, a_commit_sha = Some (ID commit),
                                      a_alert_type = alertType, a_severity = severity,
                                      a_title = ''Backdated commit detected'',
                                      a_description =
                                        ''Commit author date is significantly older than push time'',
                                      a_author_date = authorDate, a_pushed_at = receiveTime,
                                      a_backdate_hours = backdateHours\<rparr>]\<rparr>)
                          else st1)
               in (None, snd (updateContributor st2 repoID commit receiveTime)))"

text \<open>
  The loop of \<^verbatim>\<open>handlePush\<close> over the commits of one push event: an error of
  \<^verbatim>\<open>processCommit\<close> is logged and the loop goes on.
\<close>

fun process_commits :: "Config \<Rightarrow> store \<Rightarrow> int \<Rightarrow> HeadCommit list \<Rightarrow> Time \<Rightarrow> store" where
  "process_commits cfg st repoGithubID [] receiveTime = st"
| "process_commits cfg st repoGithubID (commit # rest) receiveTime =
     process_commits cfg (snd (processCommit cfg st repoGithubID commit receiveTime))
       repoGithubID rest receiveTime"

section \<open>Backdate detection (package detection)\<close>

record BackdateResult =
  CommitSHA :: string
  AuthorDate :: Time
  PushedAt :: Time
  DifferenceHours :: int
  IsSuspicious :: bool
  IsCritical :: bool

definition AnalyzeBackdate :: "Config \<Rightarrow> Time \<Rightarrow> Time \<Rightarrow> BackdateResult" where
  "AnalyzeBackdate cfg authorDate pushedAt =
     (let diffHours = go_int (Hours (Sub pushedAt authorDate))
      in \<lparr>CommitSHA = [],
          AuthorDate = authorDate,
          PushedAt = pushedAt,
          DifferenceHours = diffHours,
          IsSuspicious = (diffHours > BackdateSuspiciousHours cfg),
          IsCritical = (diffHours > BackdateCriticalHours cfg)\<rparr>)"

section \<open>Conventional commits: the parser of the analysis (package analysis)\<close>

record ConventionalCommit =
  Type :: string
  Scope :: string
  CCDescription :: string
  IsBreaking :: bool
  IsValid :: bool

text \<open>
  \<^verbatim>\<open>ParseConventionalCommit\<close> matches the first line against the regular expression
  \<^verbatim>\<open>^(\w+)(?:\(([^)]+)\))?(!)?:\s*(.+)\<close>.  In Go's syntax \<^verbatim>\<open>\w\<close> is
  \<^verbatim>\<open>[0-9A-Za-z_]\<close>, \<^verbatim>\<open>\s\<close> is \<^verbatim>\<open>[\t\n\f\r ]\<close> and \<^verbatim>\<open>.\<close> is any character
  but the newline.  The expression is anchored and every choice it leaves is forced:
  \<^item> \<^verbatim>\<open>\w+\<close> is followed by \<^verbatim>\<open>(\<close>, \<^verbatim>\<open>!\<close> or \<^verbatim>\<open>:\<close>, none of them a word character,
    so group 1 is the longest run of word characters, and it is not empty;
  \<^item> the optional scope starts with \<^verbatim>\<open>(\<close>; its body excludes \<^verbatim>\<open>)\<close> and is followed
    by \<^verbatim>\<open>)\<close>, so group 2 runs to the first \<^verbatim>\<open>)\<close> and is not empty; when a
    \<^verbatim>\<open>(\<close> is there and the scope does not match, nothing else can consume the
    \<^verbatim>\<open>(\<close> and the match fails;
  \<^item> an optional \<^verbatim>\<open>!\<close>, then the colon;
  \<^item> \<^verbatim>\<open>\s*\<close> takes the longest run of white space that leaves a character for
    \<^verbatim>\<open>.+\<close>, which then runs to the end of the line.
  \<open>conventionalCommitRegex\<close> returns the four groups of \<^verbatim>\<open>FindStringSubmatch\<close>, an
  unmatched optional group being the empty string, and \<open>None\<close> for \<^verbatim>\<open>nil\<close>.
\<close>

definition is_word :: "char \<Rightarrow> bool" where
  "is_word c = (c \<in> set ''0123456789ABCDEFGHIJKLMNOPQRSTUVWXYZ_abcdefghijklmnopqrstuvwxyz'')"

definition is_space :: "char \<Rightarrow> bool" where
  "is_space c = (c \<in> set [CHR 0x09, CHR 0x0A, CHR 0x0C, CHR 0x0D, CHR '' ''])"

text \<open>
  \<^verbatim>\<open>\s*(.+)\<close> on the rest \<open>r\<close> of the line, the white space taking \<open>k\<close> characters at
  first and giving them back one by one.
\<close>

fun match_description :: "nat \<Rightarrow> string \<Rightarrow> string option" where
  "match_description k r =
     (let d = takeWhile (\<lambda>c. c \<noteq> newline) (drop k r)
      in if d \<noteq> [] then Some d
         else (case k of 0 \<Rightarrow> None | Suc j \<Rightarrow> match_description j r))"

definition conventionalCommitRegex :: "string \<Rightarrow> (string \<times> string \<times> string \<times> string) option" where
  "conventionalCommitRegex line =
     (let m1 = takeWhile is_word line;
          r1 = dropWhile is_word line
      in if m1 = [] then None
         else
           let scoped =
                 (case r1 of
                    c # body \<Rightarrow>
                      if c = CHR ''('' then
                        (let m2 = takeWhile (\<lambda>c. c \<noteq> CHR '')'') body;
                             r2 = dropWhile (\<lambda>c. c \<noteq> CHR '')'') body
                         in if m2 \<noteq> [] \<and> r2 \<noteq> [] then Some (m2, tl r2) else None)
                      else Some ([], r1)
                  | [] \<Rightarrow> Some ([], r1))
           in case scoped of
                None \<Rightarrow> None
              | Some (m2, r2) \<Rightarrow>
                  let m3 = (if r2 \<noteq> [] \<and> hd r2 = CHR ''!'' then ''!'' else []);
                      r3 = (if r2 \<noteq> [] \<and> hd r2 = CHR ''!'' then tl r2 else r2)
                  in case r3 of
                       [] \<Rightarrow> None
                     | c # r4 \<Rightarrow>
                         if c \<noteq> CHR '':'' then None
                         else (case match_description (length (takeWhile is_space r4)) r4 of
                                 None \<Rightarrow> None
                               | Some m4 \<Rightarrow> Some (m1, m2, m3, m4)))"

text \<open>
  \<^verbatim>\<open>strings.ToLower\<close>; it is applied to group 1, which holds ASCII word characters only.
\<close>

definition to_lower_char :: "char \<Rightarrow> char" where
  "to_lower_char c =
     (case map_of (zip ''ABCDEFGHIJKLMNOPQRSTUVWXYZ'' ''abcdefghijklmnopqrstuvwxyz'') c of
        None \<Rightarrow> c | Some l \<Rightarrow> l)"

definition ToLower :: "string \<Rightarrow> string" where
  "ToLower s = map to_lower_char s"

definition invalid_commit :: ConventionalCommit where
  "invalid_commit =
     \<lparr>Type = [], Scope = [], CCDescription = [], IsBreaking = False, IsValid = False\<rparr>"

definition ParseConventionalCommit :: "string \<Rightarrow> ConventionalCommit" where
  "ParseConventionalCommit message =
     (if message = [] then invalid_commit
      else
        let firstLine = takeWhile (\<lambda>c. c \<noteq> newline) message in
        case conventionalCommitRegex firstLine of
          None \<Rightarrow> invalid_commit
        | Some (m1, m2, m3, m4) \<Rightarrow>
            let commitType = ToLower m1
            in if \<not> validTypes commitType then invalid_commit
               else \<lparr>Type = commitType, Scope = m2, CCDescription = m4,
                       IsBreaking = (m3 = ''!''), IsValid = True\<rparr>)"

section \<open>Distribution of the contributions (package analysis)\<close>

text \<open>
  \<^verbatim>\<open>calculateGini\<close> receives the commit shares, which are finite.  Its arithmetic is a
  parameter \<open>rd\<close>, the rounding applied to the exact result of every operation and
  conversion: \<open>calculateGini\<close> is the function of the program, with the rounding of
  \<^verbatim>\<open>float64\<close>, and \<open>calculateGini_in (\<lambda>x. x)\<close> is the same computation in exact arithmetic.
  \<^verbatim>\<open>sort.Float64s\<close> sorts in increasing order.
\<close>

text \<open>
  The loop \<^verbatim>\<open>for i, v := range sorted { cumSum += v; sum += float64(i+1) * v }\<close>; the state
  is \<open>(sumv, cumSum)\<close>, \<open>sumv\<close> being the variable \<^verbatim>\<open>sum\<close>.
\<close>

fun gini_loop :: "(real \<Rightarrow> real) \<Rightarrow> nat \<Rightarrow> real \<times> real \<Rightarrow> real list \<Rightarrow> real \<times> real" where
  "gini_loop rd i (sumv, cumSum) [] = (sumv, cumSum)"
| "gini_loop rd i (sumv, cumSum) (v # vs) =
     gini_loop rd (Suc i) (rd (sumv + rd (rd (of_nat (i + 1)) * v)), rd (cumSum + v)) vs"

definition calculateGini_in :: "(real \<Rightarrow> real) \<Rightarrow> real list \<Rightarrow> real" where
  "calculateGini_in rd values =
     (let n = length values in
      if n = 0 then 0
      else
        let sorted = sort values;
            (sumv, cumSum) = gini_loop rd 0 (0, 0) sorted
        in if cumSum = 0 then 0
           else rd (rd (rd (2 * sumv) / rd (rd (of_nat n) * cumSum))
                    - rd (rd (rd (of_nat n) + 1) / rd (of_nat n))))"

definition calculateGini :: "real list \<Rightarrow> real" where
  "calculateGini values = calculateGini_in float64 values"

text \<open>
  The formula in the words of the specification: sort the shares in increasing order, then
  \<open>G = (2 \<cdot> \<Sum>(i \<cdot> share\<^sub>i)) / (n \<cdot> \<Sum>share\<^sub>i) - (n + 1) / n\<close> with positions counted from 1.
  The quotient has no value when \<open>n \<cdot> \<Sum>share\<^sub>i\<close> is zero.
\<close>

definition gini_formula :: "real list \<Rightarrow> real option" where
  "gini_formula shares =
     (let s = sort shares; n = length s
      in if of_nat n * sum_list s = 0 then None
         else Some ((2 * (\<Sum>i \<leftarrow> [1 ..< n + 1]. of_nat i * s ! (i - 1))) / (of_nat n * sum_list s)
                    - (of_nat n + 1) / of_nat n))"

section \<open>Volume of the contributions (package analysis)\<close>

text \<open>
  \<^verbatim>\<open>calculateConsistencyScore\<close> divides by a mean that can be zero, so its result is a
  \<^verbatim>\<open>float64\<close> with the infinities and the value that is not a number.  The zero dividends
  and divisors of this function are sums and differences, which are never the negative zero.
\<close>

datatype float = Finite real | PosInf | NegInf | NaN

fun fadd :: "float \<Rightarrow> float \<Rightarrow> float" where
  "fadd (Finite x) (Finite y) = Finite (float64 (x + y))"
| "fadd NaN _ = NaN"
| "fadd _ NaN = NaN"
| "fadd PosInf NegInf = NaN"
| "fadd NegInf PosInf = NaN"
| "fadd PosInf _ = PosInf"
| "fadd _ PosInf = PosInf"
| "fadd NegInf _ = NegInf"
| "fadd _ NegInf = NegInf"

fun fdiv :: "float \<Rightarrow> float \<Rightarrow> float" where
  "fdiv (Finite x) (Finite y) =
     (if y = 0 then (if x = 0 then NaN else if 0 < x then PosInf else NegInf)
      else Finite (float64 (x / y)))"
| "fdiv NaN _ = NaN"
| "fdiv _ NaN = NaN"
| "fdiv (Finite x) _ = Finite 0"
| "fdiv PosInf (Finite y) = (if 0 \<le> y then PosInf else NegInf)"
| "fdiv NegInf (Finite y) = (if 0 \<le> y then NegInf else PosInf)"
| "fdiv _ _ = NaN"

text \<open>The comparison \<^verbatim>\<open>x >= c\<close> with a finite \<open>c\<close>.\<close>

fun fge :: "float \<Rightarrow> real \<Rightarrow> bool" where
  "fge (Finite x) c = (c \<le> x)"
| "fge PosInf c = True"
| "fge NegInf c = False"
| "fge NaN c = False"

record DailyActivity =
  Date :: Time
  Commits :: int
  Additions :: int
  Deletions :: int

text \<open>
  \<open>DayDate\<close> is the instant whose calendar day \<^verbatim>\<open>Format("2006-01-02")\<close> prints.
\<close>

record DayBreakdown =
  DayDate :: Time
  DayCommits :: int
  DayAdditions :: int
  DayDeletions :: int
  Pct :: real

record VolumeAnalysis =
  TotalDays :: int
  ActiveDays :: int
  TotalCommits :: int
  TotalAdditions :: int
  TotalDeletions :: int
  AveragePerDay :: real
  MaxDailyCommits :: int
  Pattern :: string
  PatternDesc :: string
  ConsistencyScore :: float
  LastDayPercentage :: real
  DailyBreakdown :: "DayBreakdown list"

text \<open>The three loops of \<^verbatim>\<open>calculateConsistencyScore\<close>.\<close>

fun count_active :: "int \<Rightarrow> DailyActivity list \<Rightarrow> int" where
  "count_active activeDays [] = activeDays"
| "count_active activeDays (a # as) =
     count_active (if Commits a > 0 then activeDays + 1 else activeDays) as"

fun sum_commits :: "real \<Rightarrow> DailyActivity list \<Rightarrow> real" where
  "sum_commits sumv [] = sumv"
| "sum_commits sumv (a # as) = sum_commits (float64 (sumv + float64 (of_int (Commits a)))) as"

fun sum_squares :: "real \<Rightarrow> real \<Rightarrow> DailyActivity list \<Rightarrow> real" where
  "sum_squares mean variance [] = variance"
| "sum_squares mean variance (a # as) =
     (let diff = float64 (float64 (of_int (Commits a)) - mean)
      in sum_squares mean (float64 (variance + float64 (diff * diff))) as)"

definition calculateConsistencyScore :: "DailyActivity list \<Rightarrow> int \<Rightarrow> float" where
  "calculateConsistencyScore activities totalDays =
     (if totalDays = 0 \<or> length activities = 0 then Finite 0
      else
        let activeDays = count_active 0 activities;
            activityRate =
              float64 (float64 (float64 (of_int activeDays) / float64 (of_int totalDays)) * 100);
            sumv = sum_commits 0 activities;
            mean = float64 (sumv / float64 (of_nat (length activities)));
            variance = float64 (sum_squares mean 0 activities / float64 (of_nat (length activities)));
            varianceScore =
              fdiv (Finite 100) (fadd (Finite 1) (fdiv (Finite variance) (Finite mean)))
        in fdiv (fadd (Finite activityRate) varianceScore) (Finite 2))"

text \<open>The share \<^verbatim>\<open>float64(c) / float64(total) * 100\<close>.\<close>

definition percentage :: "int \<Rightarrow> int \<Rightarrow> real" where
  "percentage c tot = float64 (float64 (float64 (of_int c) / float64 (of_int tot)) * 100)"

text \<open>
  The test of \<^verbatim>\<open>determinePattern\<close> for the pattern \<^verbatim>\<open>deadline_dumper\<close>: more than half
  of the commits in the last fifth of the days, which is one day at least.
\<close>

definition last_period_over_half :: "VolumeAnalysis \<Rightarrow> bool" where
  "last_period_over_half a =
     (let lastDays0 = go_int (float64 (float64 (float64 (of_int (TotalDays a)) * 20) / 100));
          lastDays = (if lastDays0 < 1 then 1 else lastDays0);
          lastPeriodCommits =
            (if length (DailyBreakdown a) > 0 then
               (let startIdx0 = int (length (DailyBreakdown a)) - lastDays;
                    startIdx = (if startIdx0 < 0 then 0 else startIdx0)
                in sum_list (map DayCommits (drop (nat startIdx) (DailyBreakdown a))))
             else 0);
          lastPeriodPctActual = percentage lastPeriodCommits (TotalCommits a)
      in lastPeriodPctActual > 50)"

definition determinePattern :: "VolumeAnalysis \<Rightarrow> VolumeAnalysis" where
  "determinePattern a =
     (if TotalCommits a = 0 then
        a\<lparr>Pattern := ''no_activity'', PatternDesc := ''No activity recorded''\<rparr>
      else if TotalDays a > 0 \<and> last_period_over_half a then
        a\<lparr>Pattern := ''deadline_dumper'',
          PatternDesc := ''Most commits pushed near the deadline (>50% in final 20% of time)''\<rparr>
      else if fge (ConsistencyScore a) 70 then
        a\<lparr>Pattern := ''daily_builder'',
          PatternDesc := ''Consistent daily activity throughout the period''\<rparr>
      else if fge (ConsistencyScore a) 40 then
        a\<lparr>Pattern := ''moderate_builder'', PatternDesc := ''Moderately consistent activity''\<rparr>
      else if float64 (of_int (MaxDailyCommits a)) > float64 (AveragePerDay a * 3) then
        a\<lparr>Pattern := ''burst_coder'',
          PatternDesc := ''Activity comes in bursts with quiet periods between''\<rparr>
      else
        a\<lparr>Pattern := ''sporadic'', PatternDesc := ''Irregular activity pattern''\<rparr>)"

definition empty_analysis :: VolumeAnalysis where
  "empty_analysis =
     \<lparr>TotalDays = 0, ActiveDays = 0, TotalCommits = 0, TotalAdditions = 0, TotalDeletions = 0,
      AveragePerDay = 0, MaxDailyCommits = 0, Pattern = [], PatternDesc = [],
      ConsistencyScore = Finite 0, LastDayPercentage = 0, DailyBreakdown = []\<rparr>"

text \<open>The loop of \<^verbatim>\<open>AnalyzeVolume\<close> that accumulates the totals.\<close>

fun add_totals :: "VolumeAnalysis \<Rightarrow> DailyActivity list \<Rightarrow> VolumeAnalysis" where
  "add_totals analysis [] = analysis"
| "add_totals analysis (a # as) =
     (let an1 = (if Commits a > 0 then analysis\<lparr>ActiveDays := ActiveDays analysis + 1\<rparr>
                 else analysis);
          an2 = an1\<lparr>TotalCommits := TotalCommits an1 + Commits a,
                    TotalAdditions := TotalAdditions an1 + Additions a,
                    TotalDeletions := TotalDeletions an1 + Deletions a\<rparr>;
          an3 = (if Commits a > MaxDailyCommits an2 then an2\<lparr>MaxDailyCommits := Commits a\<rparr>
                 else an2)
      in add_totals an3 as)"

text \<open>The span \<^verbatim>\<open>int(end.Sub(start).Hours()/24) + 1\<close> in days.\<close>

definition days_between :: "Time \<Rightarrow> Time \<Rightarrow> int" where
  "days_between start end = go_int (float64 (Hours (Sub end start) / 24)) + 1"

text \<open>
  \<^verbatim>\<open>sort.Slice\<close> orders the activities by date and leaves the order of activities with
  equal dates open; the model keeps their order.
\<close>

definition AnalyzeVolume :: "DailyActivity list \<Rightarrow> Time \<Rightarrow> Time \<Rightarrow> VolumeAnalysis" where
  "AnalyzeVolume activities0 hackathonStart hackathonEnd =
     (if length activities0 = 0 then
        empty_analysis\<lparr>Pattern := ''no_activity'', PatternDesc := ''No activity recorded''\<rparr>
      else
        let activities = sort_key Date activities0;
            an1 = add_totals empty_analysis activities;
            an2 = (if \<not> IsZero hackathonStart \<and> \<not> IsZero hackathonEnd then
                     an1\<lparr>TotalDays := days_between hackathonStart hackathonEnd\<rparr>
                   else if length activities > 0 then
                     an1\<lparr>TotalDays := days_between (Date (hd activities)) (Date (last activities))\<rparr>
                   else an1);
            an3 = (if TotalDays an2 > 0 then
                     an2\<lparr>AveragePerDay :=
                           float64 (float64 (of_int (TotalCommits an2)) / float64 (of_int (TotalDays an2)))\<rparr>
                   else an2);
            an4 = an3\<lparr>DailyBreakdown :=
                        map (\<lambda>a. \<lparr>DayDate = Date a, DayCommits = Commits a,
                                    DayAdditions = Additions a, DayDeletions = Deletions a,
                                    Pct = (if TotalCommits an3 > 0
                                           then percentage (Commits a) (TotalCommits an3) else 0)\<rparr>)
                            activities\<rparr>;
            an5 = (if length activities > 0 \<and> TotalCommits an4 > 0 then
                     an4\<lparr>LastDayPercentage :=
                           percentage (Commits (last activities)) (TotalCommits an4)\<rparr>
                   else an4);
            an6 = an5\<lparr>ConsistencyScore := calculateConsistencyScore activities (TotalDays an5)\<rparr>
        in determinePattern an6)"

section \<open>Scorecard aggregation (package scorecard)\<close>

record CheckResult =
  Name :: string
  Status :: string
  Score :: int
  Description :: string

type_synonym Severity = string

definition SeverityInfo :: Severity where "SeverityInfo = ''info''"
definition SeverityWarning :: Severity where "SeverityWarning = ''warning''"
definition SeverityCritical :: Severity where "SeverityCritical = ''critical''"

text \<open>
  The loop \<^verbatim>\<open>for _, check := range checks { total += check.Score }\<close> on the 64-bit
  \<^verbatim>\<open>total\<close>.  The quotient \<^verbatim>\<open>total / len(checks)\<close> of a 64-bit number by a positive length
  is no larger than the number and needs no wrapping.
\<close>

fun sum_scores :: "int \<Rightarrow> CheckResult list \<Rightarrow> int" where
  "sum_scores tot [] = tot"
| "sum_scores tot (check # checks) = sum_scores (wrap64 (tot + Score check)) checks"

definition calculateOverallScore :: "CheckResult list \<Rightarrow> int" where
  "calculateOverallScore checks =
     (if length checks = 0 then 0
      else go_quot (sum_scores 0 checks) (int (length checks)))"

definition getOverallStatus :: "int \<Rightarrow> (Severity \<rightharpoonup> int) \<Rightarrow> string" where
  "getOverallStatus score severityCounts =
     (if map_get severityCounts SeverityCritical > 0 then ''critical''
      else if score \<ge> 80 then ''healthy''
      else if score \<ge> 50 then ''warning''
      else ''critical'')"

section \<open>Properties of the arithmetic\<close>

subsection \<open>The quotient of Go\<close>

lemma go_quot_nonneg: "0 \<le> a \<Longrightarrow> 0 < b \<Longrightarrow> go_quot a b = a div b"
  by (cases "a = 0") (simp_all add: go_quot_def)

lemma go_quot_neg: "a < 0 \<Longrightarrow> 0 < b \<Longrightarrow> go_quot a b = - ((- a) div b)"
  by (simp add: go_quot_def)

lemma int_div_bracket:
  fixes a b :: int
  assumes "0 \<le> a" "0 < b"
  shows "0 \<le> a div b" "a div b * b \<le> a" "a < (a div b + 1) * b"
proof -
  have eq: "a = b * (a div b) + a mod b" by simp
  have m: "0 \<le> a mod b" "a mod b < b" using assms by simp_all
  show "0 \<le> a div b" using assms by (simp add: pos_imp_zdiv_nonneg_iff)
  have "b * (a div b) \<le> a" using eq m by linarith
  then show "a div b * b \<le> a" by (simp add: mult.commute)
  have "a < b * (a div b) + b" using eq m by linarith
  then show "a < (a div b + 1) * b" by (simp add: algebra_simps)
qed

lemma go_quot_truncates:
  assumes "0 < b"
  shows "\<bar>go_quot a b\<bar> * b \<le> \<bar>a\<bar> \<and> \<bar>a\<bar> < (\<bar>go_quot a b\<bar> + 1) * b \<and> 0 \<le> go_quot a b * a"
proof (cases "0 \<le> a")
  case True
  note br = int_div_bracket [OF True assms]
  show ?thesis using True assms br by (simp add: go_quot_nonneg)
next
  case False
  then have neg: "a < 0" and nn: "0 \<le> - a" by simp_all
  note br = int_div_bracket [OF nn assms]
  have "0 \<le> - ((- a) div b) * a"
    using neg br(1) by (simp add: mult_nonneg_nonpos)
  then show ?thesis using neg assms br
    by (simp add: go_quot_neg)
qed

subsection \<open>Rounding to binary64\<close>

lemmas float_eval = float64_def round_even_def exponent_def log2_floor.simps Let_def

lemma log2_floor_bounds:
  "0 < n \<Longrightarrow> 2 ^ log2_floor n \<le> n \<and> n < 2 ^ (log2_floor n + 1)"
proof (induction n rule: log2_floor.induct)
  case (1 n)
  show ?case
  proof (cases "n < 2")
    case True
    with "1.prems" have "n = 1" by simp
    then show ?thesis by (simp add: log2_floor.simps)
  next
    case False
    then have pos: "0 < n div 2" by simp
    from "1.IH" [OF False pos]
    have lo: "2 ^ log2_floor (n div 2) \<le> n div 2"
      and hi: "n div 2 < 2 ^ (log2_floor (n div 2) + 1)" by simp_all
    have eq: "log2_floor n = Suc (log2_floor (n div 2))"
      using False by (subst log2_floor.simps) simp
    have "2 * 2 ^ log2_floor (n div 2) \<le> n" using lo by linarith
    moreover have "n < 2 * 2 ^ (log2_floor (n div 2) + 1)" using hi by linarith
    ultimately show ?thesis by (simp add: eq)
  qed
qed

lemma round_even_of_int: "round_even (of_int m) = m"
  by (simp add: round_even_def)

lemma float64_of_int:
  assumes "0 \<le> n" "n < 2 ^ 53"
  shows "float64 (of_int n) = of_int n"
proof (cases "n = 0")
  case True
  then show ?thesis by (simp add: float64_def)
next
  case False
  with assms have pos: "1 \<le> n" by simp
  define e where "e = log2_floor (nat n)"
  have b: "2 ^ e \<le> nat n" using log2_floor_bounds [of "nat n"] pos by (simp add: e_def)
  have "(2::nat) ^ e < 2 ^ 53"
  proof -
    have "int (2 ^ e) \<le> n" using b pos by linarith
    then have "int (2 ^ e) < 2 ^ 53" using assms(2) by linarith
    then show ?thesis by (metis of_nat_less_iff of_nat_numeral of_nat_power)
  qed
  then have "e < 53" by (rule power_less_imp_less_exp [of "2::nat", rotated]) simp
  then have e52: "e \<le> 52" by simp
  have ex: "exponent \<bar>real_of_int n\<bar> = int e"
    using pos by (simp add: exponent_def e_def)
  define k where "k = 52 - e"
  have ulp: "(2::real) powi (int e - 52) = 1 / 2 ^ k"
    using e52 by (simp add: k_def power_int_def inverse_eq_divide power_one_over nat_diff_distrib')
  have q: "real_of_int n / (1 / 2 ^ k) = real_of_int (n * 2 ^ k)" by simp
  have "float64 (of_int n) = of_int (round_even (real_of_int n / (1 / 2 ^ k))) * (1 / 2 ^ k)"
    using False by (simp add: float64_def Let_def ex ulp max_def)
  also have "\<dots> = of_int (n * 2 ^ k) * (1 / 2 ^ k)"
    by (simp only: q round_even_of_int)
  also have "\<dots> = of_int n" by simp
  finally show ?thesis .
qed

lemma float64_zero: "float64 0 = 0"
  by (simp add: float64_def)

lemma exponent_bounds:
  assumes "0 < x"
  shows "2 powi (exponent x) \<le> x \<and> x < 2 powi (exponent x + 1)"
proof (cases "1 \<le> x")
  case True
  define m where "m = nat \<lfloor>x\<rfloor>"
  have m1: "0 < m" using True by (simp add: m_def)
  have mx: "real m \<le> x" "x < real m + 1"
    using True by (simp_all add: m_def)
  note b = log2_floor_bounds [OF m1]
  have ex: "exponent x = int (log2_floor m)" using True by (simp add: exponent_def m_def)
  have lo: "(2::real) ^ log2_floor m \<le> real m"
    using b by (metis of_nat_le_iff of_nat_numeral of_nat_power)
  have "real m + 1 \<le> 2 ^ (log2_floor m + 1)"
  proof -
    have "m + 1 \<le> 2 ^ (log2_floor m + 1)" using b by simp
    then have "real (m + 1) \<le> real (2 ^ (log2_floor m + 1))" by (simp only: of_nat_le_iff)
    then show ?thesis by simp
  qed
  then have hi: "x < 2 ^ (log2_floor m + 1)" using mx by linarith
  have p1: "(2::real) powi int (log2_floor m) = 2 ^ log2_floor m" by simp
  have p2: "(2::real) powi (int (log2_floor m) + 1) = 2 ^ (log2_floor m + 1)"
    by (metis of_nat_Suc Suc_eq_plus1 power_int_of_nat of_nat_add of_nat_1)
  show ?thesis unfolding ex p1 p2 using lo hi mx by linarith
next
  case False
  define y where "y = 1 / x"
  have y1: "1 < y" using False assms by (simp add: y_def)
  define m where "m = nat \<lfloor>y\<rfloor>"
  have m1: "0 < m" using y1 by (simp add: m_def)
  have my: "real m \<le> y" "y < real m + 1"
    using y1 by (simp_all add: m_def)
  define k where "k = log2_floor m"
  note b = log2_floor_bounds [OF m1]
  have lo: "(2::real) ^ k \<le> real m"
    using b unfolding k_def by (metis of_nat_le_iff of_nat_numeral of_nat_power)
  have "real m + 1 \<le> 2 ^ (k + 1)"
  proof -
    have "m + 1 \<le> 2 ^ (k + 1)" using b by (simp add: k_def)
    then have "real (m + 1) \<le> real (2 ^ (k + 1))" by (simp only: of_nat_le_iff)
    then show ?thesis by simp
  qed
  then have hi: "y < 2 ^ (k + 1)" using my by linarith
  have ylo: "2 ^ k \<le> y" using lo my by linarith
  have xy: "x = 1 / y" using assms by (simp add: y_def)
  have xhi: "x \<le> 1 / 2 ^ k"
    unfolding xy using ylo by (simp add: frac_le)
  have xlo: "1 / 2 ^ (k + 1) < x"
    unfolding xy using hi y1 by (simp add: frac_less2)
  have pk: "(2::real) powi (- int k) = 1 / 2 ^ k"
    by (simp add: power_int_minus inverse_eq_divide)
  have pk1: "(2::real) powi (- int k - 1) = 1 / 2 ^ (k + 1)"
  proof -
    have "- int k - 1 = - int (k + 1)" by simp
    then show ?thesis by (simp only: power_int_minus power_int_of_nat inverse_eq_divide)
  qed
  have pk2: "(2::real) powi (- int k + 1) = 2 / 2 ^ k"
  proof -
    have "(2::real) powi (- int k + 1) = 2 powi (- int k) * 2 powi 1"
      by (rule power_int_add) simp
    then show ?thesis by (simp add: pk)
  qed
  have ex: "exponent x = (if x = 1 / 2 ^ k then - int k else - int k - 1)"
    using False by (simp add: exponent_def y_def [symmetric] m_def [symmetric] k_def [symmetric] Let_def pk)
  show ?thesis
  proof (cases "x = 1 / 2 ^ k")
    case True
    have e: "exponent x = - int k" using True ex by simp
    have "(2::real) powi (exponent x) = 1 / 2 ^ k" "(2::real) powi (exponent x + 1) = 2 / 2 ^ k"
      unfolding e by (rule pk, rule pk2)
    moreover have "(1::real) / 2 ^ k < 2 / 2 ^ k" by (simp add: divide_strict_right_mono)
    ultimately show ?thesis using True by simp
  next
    case False
    have e: "exponent x = - int k - 1" using False ex by simp
    have e1: "exponent x + 1 = - int k" using e by simp
    have "(2::real) powi (exponent x) = 1 / 2 ^ (k + 1)" "(2::real) powi (exponent x + 1) = 1 / 2 ^ k"
      unfolding e1 unfolding e by (rule pk1, rule pk)
    then show ?thesis using False xlo xhi by simp
  qed
qed

lemma round_even_range: "\<lfloor>y\<rfloor> \<le> round_even y \<and> round_even y \<le> \<lfloor>y\<rfloor> + 1"
  by (simp add: round_even_def Let_def)

lemma round_even_mono:
  assumes "a \<le> b"
  shows "round_even a \<le> round_even b"
proof (cases "\<lfloor>a\<rfloor> = \<lfloor>b\<rfloor>")
  case True
  have "a - of_int \<lfloor>b\<rfloor> \<le> b - of_int \<lfloor>b\<rfloor>" using assms by simp
  then show ?thesis
    unfolding round_even_def Let_def True by auto
next
  case False
  have "\<lfloor>a\<rfloor> \<le> \<lfloor>b\<rfloor>" using assms by (rule floor_mono)
  with False have "\<lfloor>a\<rfloor> + 1 \<le> \<lfloor>b\<rfloor>" by simp
  then show ?thesis
    using round_even_range [of a] round_even_range [of b] by linarith
qed

lemma float64_nonneg:
  assumes "0 \<le> x"
  shows "0 \<le> float64 x"
proof (cases "x = 0")
  case True
  then show ?thesis by (simp add: float64_def)
next
  case False
  define u where "u = (2::real) powi (max (exponent \<bar>x\<bar>) (- 1022) - 52)"
  have u: "0 < u" by (simp add: u_def)
  have "0 \<le> x / u" using assms u by simp
  then have "round_even 0 \<le> round_even (x / u)" by (rule round_even_mono)
  then have "0 \<le> round_even (x / u)" by (simp add: round_even_def)
  then show ?thesis
    using False u by (simp add: float64_def Let_def u_def [symmetric])
qed

lemma float64_nonpos:
  assumes "x \<le> 0"
  shows "float64 x \<le> 0"
proof (cases "x = 0")
  case True
  then show ?thesis by (simp add: float64_def)
next
  case False
  define u where "u = (2::real) powi (max (exponent \<bar>x\<bar>) (- 1022) - 52)"
  have u: "0 < u" by (simp add: u_def)
  have "x / u \<le> 0" using assms u by (simp add: divide_le_0_iff)
  then have "round_even (x / u) \<le> round_even 0" by (rule round_even_mono)
  then have "round_even (x / u) \<le> 0" by (simp add: round_even_def)
  then show ?thesis
    using False u by (simp add: float64_def Let_def u_def [symmetric] mult_le_0_iff)
qed

lemma float64_mono_nonneg:
  assumes "0 \<le> x" "x \<le> y"
  shows "float64 x \<le> float64 y"
proof (cases "x = 0")
  case True
  then show ?thesis using float64_nonneg [of y] assms by (simp add: float64_zero)
next
  case False
  then have x0: "0 < x" and y0: "0 < y" using assms by simp_all
  define ex where "ex = max (exponent x) (- 1022)"
  define ey where "ey = max (exponent y) (- 1022)"
  define ux where "ux = (2::real) powi (ex - 52)"
  define uy where "uy = (2::real) powi (ey - 52)"
  have ux: "0 < ux" and uy: "0 < uy" by (simp_all add: ux_def uy_def)
  have fx: "float64 x = of_int (round_even (x / ux)) * ux"
    using x0 by (simp add: float64_def Let_def ux_def ex_def)
  have fy: "float64 y = of_int (round_even (y / uy)) * uy"
    using y0 by (simp add: float64_def Let_def uy_def ey_def)
  note bx = exponent_bounds [OF x0] and by' = exponent_bounds [OF y0]
  have pw: "(2::real) powi exponent x < 2 powi (exponent y + 1)"
    using bx by' assms by linarith
  have "exponent x < exponent y + 1"
  proof (rule ccontr)
    assume "\<not> exponent x < exponent y + 1"
    then have "exponent y + 1 \<le> exponent x" by simp
    then have "(2::real) powi (exponent y + 1) \<le> 2 powi exponent x"
      by (rule power_int_increasing) simp
    with pw show False by simp
  qed
  then have le: "ex \<le> ey" by (simp add: ex_def ey_def)
  show ?thesis
  proof (cases "ex = ey")
    case True
    then have same: "ux = uy" by (simp add: ux_def uy_def)
    have "x / uy \<le> y / uy" using assms uy by (simp add: divide_right_mono)
    then have "round_even (x / uy) \<le> round_even (y / uy)" by (rule round_even_mono)
    then show ?thesis unfolding fx fy same using uy by simp
  next
    case False
    with le have lt: "ex < ey" by simp
    then have eyy: "ey = exponent y" by (simp add: ex_def ey_def max_def split: if_splits)
    have up: "x < 2 powi (ex + 1)"
    proof -
      have "(2::real) powi (exponent x + 1) \<le> 2 powi (ex + 1)"
        by (rule power_int_increasing) (simp_all add: ex_def)
      then show ?thesis using bx by linarith
    qed
    have split53: "(2::real) powi (ex + 1) = 2 ^ 53 * ux"
    proof -
      have "(2::real) powi (53 + (ex - 52)) = 2 powi 53 * 2 powi (ex - 52)"
        by (rule power_int_add) simp
      then show ?thesis by (simp add: ux_def add.commute)
    qed
    have "x / ux \<le> of_int (2 ^ 53)"
      using up ux unfolding split53 by (simp add: pos_divide_le_eq)
    then have "round_even (x / ux) \<le> round_even (of_int (2 ^ 53))" by (rule round_even_mono)
    then have "round_even (x / ux) \<le> 2 ^ 53" by (simp only: round_even_of_int)
    then have "real_of_int (round_even (x / ux)) \<le> 2 ^ 53" by (simp only: of_int_le_numeral_power_cancel_iff)
    then have fxle: "float64 x \<le> 2 powi (ex + 1)"
      unfolding fx split53 using ux by (simp add: mult_right_mono)
    have split52: "(2::real) powi ey = 2 ^ 52 * uy"
    proof -
      have "(2::real) powi (52 + (ey - 52)) = 2 powi 52 * 2 powi (ey - 52)"
        by (rule power_int_add) simp
      then show ?thesis by (simp add: uy_def)
    qed
    have "of_int (2 ^ 52) \<le> y / uy"
      using by' uy unfolding eyy [symmetric] split52 by (simp add: pos_le_divide_eq)
    then have "round_even (of_int (2 ^ 52)) \<le> round_even (y / uy)" by (rule round_even_mono)
    then have "2 ^ 52 \<le> round_even (y / uy)" by (simp only: round_even_of_int)
    then have "(2::real) ^ 52 \<le> real_of_int (round_even (y / uy))" by (simp only: numeral_power_le_of_int_cancel_iff)
    then have fyge: "2 powi ey \<le> float64 y"
      unfolding fy split52 using uy by (simp add: mult_right_mono)
    have "(2::real) powi (ex + 1) \<le> 2 powi ey"
      by (rule power_int_increasing) (use lt in simp_all)
    then show ?thesis using fxle fyge by linarith
  qed
qed

subsection \<open>The error of a rounding\<close>

text \<open>
  The rounding moves a number by at most half a unit in the last place: by at most the
  fraction \<open>2\<^sup>-\<^sup>5\<^sup>3\<close> of a normal number, and by at most \<open>2\<^sup>-\<^sup>1\<^sup>0\<^sup>7\<^sup>5\<close> below.
\<close>

lemma round_even_error: "\<bar>of_int (round_even y) - y\<bar> \<le> 1 / 2"
proof -
  have "of_int \<lfloor>y\<rfloor> \<le> y" "y < of_int \<lfloor>y\<rfloor> + 1" by linarith+
  then show ?thesis by (auto simp: round_even_def Let_def)
qed

lemma exponent_normal:
  assumes "2 powi (- 1022) \<le> x"
  shows "- 1022 \<le> exponent x"
proof (rule ccontr)
  assume "\<not> - 1022 \<le> exponent x"
  then have "exponent x + 1 \<le> - 1022" by simp
  then have "(2::real) powi (exponent x + 1) \<le> 2 powi (- 1022)"
    by (rule power_int_increasing) simp
  moreover have "0 < x" using assms by (rule less_le_trans [rotated]) simp
  then have "x < 2 powi (exponent x + 1)" using exponent_bounds by blast
  ultimately show False using assms by linarith
qed

lemma float64_normal:
  assumes "min_normal \<le> x"
  shows "\<bar>float64 x - x\<bar> \<le> x / 2 ^ 53" and "min_normal \<le> float64 x"
proof -
  have xm: "2 powi (- 1022) \<le> x" using assms by (simp only: min_normal_def)
  have x0: "0 < x" using xm by (rule less_le_trans [rotated]) simp
  define e where "e = exponent x"
  define ulp where "ulp = (2::real) powi (e - 52)"
  have e: "- 1022 \<le> e" unfolding e_def using xm by (rule exponent_normal)
  have ulp0: "0 < ulp" by (simp add: ulp_def)
  have lo: "2 powi e \<le> x" using exponent_bounds [OF x0] by (simp add: e_def)
  have split: "(2::real) powi e = 2 ^ 52 * ulp"
  proof -
    have "(2::real) powi (52 + (e - 52)) = 2 powi 52 * 2 powi (e - 52)"
      by (rule power_int_add) simp
    then show ?thesis by (simp add: ulp_def)
  qed
  have fx: "float64 x = of_int (round_even (x / ulp)) * ulp"
    using x0 e by (simp add: float64_def Let_def ulp_def e_def max_def)
  have "\<bar>of_int (round_even (x / ulp)) - x / ulp\<bar> \<le> 1 / 2" by (rule round_even_error)
  then have "\<bar>of_int (round_even (x / ulp)) - x / ulp\<bar> * ulp \<le> 1 / 2 * ulp"
    using ulp0 by (intro mult_right_mono) simp_all
  moreover have "\<bar>of_int (round_even (x / ulp)) - x / ulp\<bar> * ulp = \<bar>float64 x - x\<bar>"
  proof -
    have "\<bar>of_int (round_even (x / ulp)) - x / ulp\<bar> * ulp
          = \<bar>(of_int (round_even (x / ulp)) - x / ulp) * ulp\<bar>"
      using ulp0 by (simp add: abs_mult)
    also have "(of_int (round_even (x / ulp)) - x / ulp) * ulp = float64 x - x"
      using ulp0 by (simp add: fx algebra_simps)
    finally show ?thesis .
  qed
  ultimately have "\<bar>float64 x - x\<bar> \<le> ulp / 2" by simp
  also have "ulp / 2 = 2 powi e / 2 ^ 53" by (simp add: split)
  also have "\<dots> \<le> x / 2 ^ 53" using lo by (simp add: divide_right_mono)
  finally show "\<bar>float64 x - x\<bar> \<le> x / 2 ^ 53" .
  have "of_int (2 ^ 52) \<le> x / ulp"
    using lo ulp0 unfolding split by (simp add: pos_le_divide_eq)
  then have "round_even (of_int (2 ^ 52)) \<le> round_even (x / ulp)" by (rule round_even_mono)
  then have "2 ^ 52 \<le> round_even (x / ulp)" by (simp only: round_even_of_int)
  then have "(2::real) ^ 52 \<le> real_of_int (round_even (x / ulp))"
    by (simp only: numeral_power_le_of_int_cancel_iff)
  then have "2 powi e \<le> float64 x"
    unfolding fx split using ulp0 by (simp add: mult_right_mono)
  moreover have "(2::real) powi (- 1022) \<le> 2 powi e"
    by (rule power_int_increasing) (use e in simp_all)
  ultimately show "min_normal \<le> float64 x" unfolding min_normal_def by linarith
qed

lemma float64_error:
  "\<bar>float64 x - x\<bar> \<le> \<bar>x\<bar> / 2 ^ 53 + 2 powi (- 1075)"
proof (cases "x = 0")
  case True
  then show ?thesis by (simp add: float64_def)
next
  case False
  then have x0: "0 < \<bar>x\<bar>" by simp
  define e where "e = max (exponent \<bar>x\<bar>) (- 1022)"
  define ulp where "ulp = (2::real) powi (e - 52)"
  have ulp0: "0 < ulp" by (simp add: ulp_def)
  have fx: "float64 x = of_int (round_even (x / ulp)) * ulp"
    using False by (simp add: float64_def Let_def ulp_def e_def)
  have "\<bar>of_int (round_even (x / ulp)) - x / ulp\<bar> \<le> 1 / 2" by (rule round_even_error)
  then have "\<bar>of_int (round_even (x / ulp)) - x / ulp\<bar> * ulp \<le> 1 / 2 * ulp"
    using ulp0 by (intro mult_right_mono) simp_all
  moreover have "\<bar>of_int (round_even (x / ulp)) - x / ulp\<bar> * ulp = \<bar>float64 x - x\<bar>"
  proof -
    have "\<bar>of_int (round_even (x / ulp)) - x / ulp\<bar> * ulp
          = \<bar>(of_int (round_even (x / ulp)) - x / ulp) * ulp\<bar>"
      using ulp0 by (simp add: abs_mult)
    also have "(of_int (round_even (x / ulp)) - x / ulp) * ulp = float64 x - x"
      using ulp0 by (simp add: fx algebra_simps)
    finally show ?thesis .
  qed
  ultimately have err: "\<bar>float64 x - x\<bar> \<le> ulp / 2" by simp
  have half: "ulp / 2 = 2 powi (e - 53)"
  proof -
    have "(2::real) powi (1 + (e - 53)) = 2 powi 1 * 2 powi (e - 53)"
      by (rule power_int_add) simp
    then show ?thesis by (simp add: ulp_def)
  qed
  show ?thesis
  proof (cases "- 1022 \<le> exponent \<bar>x\<bar>")
    case True
    then have ee: "e = exponent \<bar>x\<bar>" by (simp add: e_def)
    have lo: "2 powi e \<le> \<bar>x\<bar>" using exponent_bounds [OF x0] by (simp add: ee)
    have "(2::real) powi (53 + (e - 53)) = 2 powi 53 * 2 powi (e - 53)"
      by (rule power_int_add) simp
    then have "(2::real) powi (e - 53) = 2 powi e / 2 ^ 53" by simp
    then have "ulp / 2 \<le> \<bar>x\<bar> / 2 ^ 53" using lo by (simp add: half divide_right_mono)
    moreover have "(0::real) \<le> 2 powi (- 1075)" by simp
    ultimately show ?thesis using err by linarith
  next
    case False
    then have "e = - 1022" by (simp add: e_def)
    then have "ulp / 2 = 2 powi (- 1075)" by (simp add: half)
    moreover have "0 \<le> \<bar>x\<bar> / 2 ^ 53" by simp
    ultimately show ?thesis using err by linarith
  qed
qed

lemma float64_of_nat:
  assumes "n < 2 ^ 53"
  shows "float64 (of_nat n) = of_nat n"
proof -
  have "int n < 2 ^ 53" using assms by (metis of_nat_less_iff of_nat_numeral of_nat_power)
  then have "float64 (of_int (int n)) = of_int (int n)" by (intro float64_of_int) simp_all
  then show ?thesis by simp
qed

lemma min_normal_pos: "0 < min_normal"
  by (simp add: min_normal_def)

lemma min_normal_le: "min_normal \<le> 1 / 1000000"
proof -
  have "(2::real) powi (- 1022) \<le> 2 powi (- 20)" by (rule power_int_increasing) simp_all
  also have "\<dots> \<le> 1 / 1000000" by (simp add: power_int_minus)
  finally show ?thesis by (simp only: min_normal_def)
qed


lemma q_bounds: "0 < (1 - 1 / 2 ^ 53 :: real)" "(1 - 1 / 2 ^ 53 :: real) \<le> 1"
  by simp_all

lemma qpow_bounds: "0 < (1 - 1 / 2 ^ 53 :: real) ^ k" "(1 - 1 / 2 ^ 53 :: real) ^ k \<le> 1"
  by (simp_all add: power_le_one)

lemma near_refl: "0 \<le> a \<Longrightarrow> near k a a"
  using qpow_bounds [of k] by (simp add: near_def mult_left_le)

lemma near_mono:
  assumes "near j a b" "j \<le> k"
  shows "near k a b"
proof -
  have "(1 - 1 / 2 ^ 53 :: real) ^ k \<le> (1 - 1 / 2 ^ 53) ^ j"
    using assms(2) by (intro power_decreasing) simp_all
  then have "b * (1 - 1 / 2 ^ 53) ^ k \<le> b * (1 - 1 / 2 ^ 53) ^ j"
    and "a * (1 - 1 / 2 ^ 53) ^ k \<le> a * (1 - 1 / 2 ^ 53) ^ j"
    using assms(1) by (simp_all add: near_def mult_left_mono)
  then show ?thesis using assms(1) unfolding near_def by linarith
qed

lemma near_add:
  assumes "near k a b" "near k c d"
  shows "near k (a + c) (b + d)"
  using assms unfolding near_def by (simp add: distrib_right)

lemma near_mult:
  assumes "near j a b" "near k c d"
  shows "near (j + k) (a * c) (b * d)"
proof -
  let ?q = "(1 - 1 / 2 ^ 53 :: real)"
  have qj: "0 \<le> ?q ^ j" and qk: "0 \<le> ?q ^ k" by simp_all
  have "(b * ?q ^ j) * (d * ?q ^ k) \<le> a * c"
    using assms qj qk unfolding near_def by (intro mult_mono) simp_all
  moreover have "(a * ?q ^ j) * (c * ?q ^ k) \<le> b * d"
    using assms qj qk unfolding near_def by (intro mult_mono) simp_all
  ultimately show ?thesis
    using assms unfolding near_def by (simp add: power_add mult_ac)
qed

lemma near_pos:
  assumes "near k a b" "0 < b"
  shows "0 < a"
proof -
  have "0 < b * (1 - 1 / 2 ^ 53) ^ k" using assms(2) qpow_bounds(1) [of k] by (intro mult_pos_pos)
  then show ?thesis using assms(1) unfolding near_def by linarith
qed

lemma near_zero:
  assumes "near k a 0"
  shows "a = 0"
proof -
  have "a * (1 - 1 / 2 ^ 53) ^ k \<le> 0" "0 \<le> a" using assms by (simp_all add: near_def)
  then show ?thesis using qpow_bounds(1) [of k]
    by (metis mult_le_0_iff not_less order_antisym)
qed

lemma near_sym: "near k a b \<Longrightarrow> near k b a"
  by (simp add: near_def)

lemma near_divide:
  assumes "near j a b" "near k c d" "0 < d"
  shows "near (j + k) (a / c) (b / d)"
proof -
  let ?q = "(1 - 1 / 2 ^ 53 :: real)"
  have c0: "0 < c" using assms(2,3) by (rule near_pos)
  have qk: "0 < ?q ^ k" by simp
  have i1: "?q ^ k / d \<le> 1 / c"
    using assms(2) c0 assms(3) unfolding near_def by (simp add: field_simps)
  have i2: "?q ^ k / c \<le> 1 / d"
    using assms(2) c0 assms(3) unfolding near_def by (simp add: field_simps)
  have "(b * ?q ^ j) * (?q ^ k / d) \<le> a * (1 / c)"
    using assms(1) i1 assms(3) unfolding near_def by (intro mult_mono) simp_all
  moreover have "(a * ?q ^ j) * (?q ^ k / c) \<le> b * (1 / d)"
    using assms(1) i2 c0 unfolding near_def by (intro mult_mono) simp_all
  ultimately show ?thesis
    using assms(1) c0 assms(3) unfolding near_def by (simp add: power_add mult_ac)
qed

lemma near_round:
  assumes "near k a b" "a = 0 \<or> min_normal \<le> a"
  shows "near (Suc k) (float64 a) b"
proof (cases "a = 0")
  case True
  have "near (Suc k) a b" using assms(1) by (rule near_mono) simp
  then show ?thesis using True by (simp add: float64_zero)
next
  case False
  define u where "u = (1 / 2 ^ 53 :: real)"
  define q where "q = 1 - u"
  have u0: "0 \<le> u" and q0: "0 \<le> q" and q1: "q \<le> 1" by (simp_all add: u_def q_def)
  have n: "min_normal \<le> a" using False assms(2) by simp
  have a0: "0 \<le> a" and b0: "0 \<le> b" and bq: "b * q ^ k \<le> a" and aq: "a * q ^ k \<le> b"
    using assms(1) by (simp_all add: near_def q_def u_def)
  have e: "\<bar>float64 a - a\<bar> \<le> a * u" using float64_normal(1) [OF n] by (simp add: u_def)
  have f0: "0 \<le> float64 a" using a0 by (rule float64_nonneg)
  have "a * q = a - a * u" by (simp add: q_def right_diff_distrib)
  then have lo: "a * q \<le> float64 a" using e by linarith
  have hi: "float64 a * q \<le> a"
  proof (cases "float64 a \<le> a")
    case True
    have "float64 a * q \<le> float64 a * 1" using q1 f0 by (intro mult_left_mono)
    then show ?thesis using True by simp
  next
    case False
    then have "a * u \<le> float64 a * u" using u0 by (intro mult_right_mono) simp_all
    moreover have "float64 a * q = float64 a - float64 a * u" by (simp add: q_def right_diff_distrib)
    ultimately show ?thesis using e by linarith
  qed
  have qk: "0 \<le> q ^ k" using q0 by simp
  have "b * q ^ k * q \<le> a * q" using bq q0 by (intro mult_right_mono)
  then have c1: "b * q ^ Suc k \<le> float64 a" using lo by (simp add: mult_ac)
  have "float64 a * q * q ^ k \<le> a * q ^ k" using hi qk by (intro mult_right_mono)
  then have c2: "float64 a * q ^ Suc k \<le> b" using aq by (simp add: mult_ac)
  show ?thesis using c1 c2 f0 b0 unfolding near_def q_def u_def by simp
qed

lemma near_error:
  assumes "near k a b" "2 * real k \<le> 2 ^ 53"
  shows "\<bar>a - b\<bar> \<le> b * (2 * real k / 2 ^ 53)"
proof -
  let ?q = "(1 - 1 / 2 ^ 53 :: real)"
  define p where "p = ?q ^ k"
  have "1 + real k * (- (1 / 2 ^ 53)) \<le> (1 + (- (1 / 2 ^ 53))) ^ k"
    by (rule Bernoulli_inequality) simp
  then have bern: "1 - real k / 2 ^ 53 \<le> p" by (simp add: p_def)
  have ku: "real k / 2 ^ 53 \<le> 1 / 2" using assms(2) by simp
  have p1: "p \<le> 1" and p0: "0 < p" unfolding p_def by (simp_all add: power_le_one)
  have phalf: "1 / 2 \<le> p" using bern ku by linarith
  have a0: "0 \<le> a" and b0: "0 \<le> b" and bp: "b * p \<le> a" and ap: "a * p \<le> b"
    using assms(1) by (simp_all add: near_def p_def)
  have onep: "1 - p \<le> real k / 2 ^ 53" using bern by linarith
  have "b - a \<le> b * (1 - p)" using bp by (simp add: algebra_simps)
  also have "\<dots> \<le> b * (real k / 2 ^ 53)" using onep b0 by (intro mult_left_mono)
  also have "\<dots> \<le> b * (2 * real k / 2 ^ 53)" using b0 by (intro mult_left_mono) simp_all
  finally have one: "b - a \<le> b * (2 * real k / 2 ^ 53)" .
  have "a * (1 / 2) \<le> a * p" using phalf a0 by (intro mult_left_mono)
  then have a2b: "a \<le> 2 * b" using ap by linarith
  have "a - b \<le> a * (1 - p)" using ap by (simp add: algebra_simps)
  also have "\<dots> \<le> a * (real k / 2 ^ 53)" using onep a0 by (intro mult_left_mono)
  also have "\<dots> \<le> (2 * b) * (real k / 2 ^ 53)" using a2b by (intro mult_right_mono) simp_all
  finally have two: "a - b \<le> b * (2 * real k / 2 ^ 53)" by (simp add: mult_ac)
  show ?thesis using one two by (intro abs_leI) linarith+
qed

subsection \<open>Hours and days\<close>

text \<open>
  Some durations and the hours the library computes for them.  The duration of 4096 hours
  59 minutes and 59.999999999 seconds is 14749199999999999 ns.  Its fraction of an hour
  falls short of 1 by less than \<open>2\<^sup>-\<^sup>4\<^sup>1\<close>, the binary64 numbers between 4096 and 8192 are
  \<open>2\<^sup>-\<^sup>4\<^sup>0\<close> apart, and the sum of 4096 and the fraction is rounded to 4097.
\<close>

lemma hours_of_1h: "Hours 3600000000000 = 1"
  by (simp add: Hours_def Hour_def go_quot_def go_rem_def float_eval)

lemma hours_of_2h: "Hours 7200000000000 = 2"
  by (simp add: Hours_def Hour_def go_quot_def go_rem_def float_eval)

lemma hours_of_25h: "Hours 90000000000000 = 25"
  by (simp add: Hours_def Hour_def go_quot_def go_rem_def float_eval)

lemma hours_of_4096h_59m_59_999999999s: "Hours 14749199999999999 = 4097"
  by (simp add: Hours_def Hour_def go_quot_def go_rem_def float_eval)

lemma hours_lower_bound:
  assumes "0 \<le> d" "d \<le> maxDuration"
  shows "of_int (d div Hour) \<le> Hours d"
proof -
  define h where "h = d div Hour"
  define f where "f = float64 (float64 (of_int (go_rem d Hour)) / (60 * 60 * 1000000000))"
  have q: "go_quot d Hour = h"
    using assms(1) by (simp add: go_quot_nonneg Hour_def h_def)
  have r: "0 \<le> go_rem d Hour"
    unfolding go_rem_def q h_def by (simp add: Hour_def)
  have h0: "0 \<le> h" using assms(1) by (simp add: h_def Hour_def pos_imp_zdiv_nonneg_iff)
  have "d div Hour \<le> maxDuration div Hour"
    using assms(2) by (intro zdiv_mono1) (simp_all add: Hour_def)
  then have hs: "h < 2 ^ 53" by (simp add: h_def maxDuration_def Hour_def)
  have fh: "float64 (of_int h) = of_int h" using h0 hs by (rule float64_of_int)
  have "0 \<le> float64 (of_int (go_rem d Hour))" using r by (intro float64_nonneg) simp
  then have f0: "0 \<le> f" unfolding f_def by (intro float64_nonneg) simp
  have "float64 (of_int h) \<le> float64 (of_int h + f)"
    using h0 f0 by (intro float64_mono_nonneg) simp_all
  then show ?thesis
    unfolding Hours_def Let_def q fh f_def [symmetric] h_def [symmetric] by (simp add: fh)
qed

lemma days_between_lower_bound:
  assumes "0 \<le> k" "k * 86400000000000 \<le> e - s" "k * 86400000000000 \<le> maxDuration"
  shows "k + 1 \<le> days_between s e"
proof -
  define d where "d = Sub e s"
  have d0: "0 \<le> d" and dm: "d \<le> maxDuration" and dk: "k * 86400000000000 \<le> d"
    using assms by (simp_all add: d_def Sub_def minDuration_def maxDuration_def)
  have "(k * 86400000000000) div Hour \<le> d div Hour"
    using dk by (intro zdiv_mono1) (simp_all add: Hour_def)
  then have "24 * k \<le> d div Hour" by (simp add: Hour_def)
  then have "real_of_int (24 * k) \<le> of_int (d div Hour)" by (simp only: of_int_le_iff)
  also have "\<dots> \<le> Hours d" using d0 dm by (rule hours_lower_bound)
  finally have "of_int k \<le> Hours d / 24" by simp
  moreover have k0: "(0::real) \<le> of_int k" using assms(1) by simp
  ultimately have "float64 (of_int k) \<le> float64 (Hours d / 24)" by (intro float64_mono_nonneg)
  moreover have "k < 2 ^ 53" using assms(3) by (simp add: maxDuration_def)
  ultimately have ge: "of_int k \<le> float64 (Hours d / 24)"
    using assms(1) by (simp add: float64_of_int)
  then have "0 \<le> float64 (Hours d / 24)" using k0 by linarith
  then have "go_int (float64 (Hours d / 24)) = \<lfloor>float64 (Hours d / 24)\<rfloor>"
    by (simp add: go_int_def)
  moreover have "k \<le> \<lfloor>float64 (Hours d / 24)\<rfloor>" using ge by (simp add: le_floor_iff)
  ultimately show ?thesis by (simp add: days_between_def d_def)
qed

lemma hours_upper_bound:
  assumes "0 \<le> d" "d \<le> maxDuration"
  shows "Hours d \<le> of_int (d div Hour) + 1"
proof -
  define h where "h = d div Hour"
  define n where "n = go_rem d Hour"
  have q: "go_quot d Hour = h"
    using assms(1) by (simp add: go_quot_nonneg Hour_def h_def)
  have n_mod: "n = d mod Hour"
    unfolding n_def go_rem_def q h_def by (simp add: minus_mult_div_eq_mod)
  have n0: "0 \<le> n" and n1: "n < 3600000000000"
    by (simp_all add: n_mod Hour_def)
  have h0: "0 \<le> h" using assms(1) by (simp add: h_def Hour_def pos_imp_zdiv_nonneg_iff)
  have "d div Hour \<le> maxDuration div Hour"
    using assms(2) by (intro zdiv_mono1) (simp_all add: Hour_def)
  then have hs: "h + 1 < 2 ^ 53" by (simp add: h_def maxDuration_def Hour_def)
  have fh: "float64 (of_int h) = of_int h" using h0 hs by (intro float64_of_int) simp_all
  have "float64 (of_int (h + 1)) = of_int (h + 1)" using h0 hs by (intro float64_of_int) simp_all
  then have fh1: "float64 (of_int h + 1) = of_int h + 1" by simp
  have fn: "float64 (of_int n) = of_int n" using n0 n1 by (intro float64_of_int) simp_all
  have one: "float64 1 = 1" using float64_of_int [of 1] by simp
  define f where "f = float64 (real_of_int n / (60 * 60 * 1000000000))"
  have "real_of_int n / (60 * 60 * 1000000000) \<le> 1" using n1 by simp
  moreover have "0 \<le> real_of_int n / (60 * 60 * 1000000000)" using n0 by simp
  ultimately have "f \<le> float64 1" unfolding f_def by (intro float64_mono_nonneg)
  then have f1: "f \<le> 1" by (simp only: one)
  have f0: "0 \<le> f" unfolding f_def using n0 by (intro float64_nonneg) simp
  have "float64 (of_int h + f) \<le> float64 (of_int h + 1)"
    using h0 f0 f1 by (intro float64_mono_nonneg) simp_all
  then have "float64 (of_int h + f) \<le> of_int h + 1" by (simp only: fh1)
  then show ?thesis
    unfolding Hours_def Let_def q n_def [symmetric] fh fn f_def [symmetric] h_def [symmetric] .
qed

lemma hours_nonpos:
  assumes "d \<le> 0"
  shows "Hours d \<le> 0"
proof -
  have q: "go_quot d Hour \<le> 0"
  proof (cases "d = 0")
    case True
    then show ?thesis by (simp add: go_quot_def)
  next
    case False
    then have "d < 0" using assms by simp
    then have "go_quot d Hour = - ((- d) div Hour)" by (simp add: go_quot_neg Hour_def)
    moreover have "0 \<le> (- d) div Hour" using assms by (simp add: Hour_def pos_imp_zdiv_nonneg_iff)
    ultimately show ?thesis by simp
  qed
  have r: "go_rem d Hour \<le> 0"
  proof (cases "d = 0")
    case True
    then show ?thesis by (simp add: go_rem_def go_quot_def)
  next
    case False
    then have neg: "d < 0" using assms by simp
    then have "go_rem d Hour = - ((- d) mod Hour)"
      by (simp add: go_rem_def go_quot_neg Hour_def algebra_simps minus_mult_div_eq_mod [symmetric])
    then show ?thesis by (simp add: Hour_def)
  qed
  have a: "float64 (of_int (go_quot d Hour)) \<le> 0" using q by (intro float64_nonpos) simp
  have "float64 (of_int (go_rem d Hour)) \<le> 0" using r by (intro float64_nonpos) simp
  then have "float64 (of_int (go_rem d Hour)) / (60 * 60 * 1000000000) \<le> 0"
    by (simp add: divide_le_0_iff)
  then have b: "float64 (float64 (of_int (go_rem d Hour)) / (60 * 60 * 1000000000)) \<le> 0"
    by (rule float64_nonpos)
  show ?thesis
    unfolding Hours_def Let_def using a b by (intro float64_nonpos) simp
qed

lemma days_between_same_instant: "days_between t t = 1"
  by (simp add: days_between_def Sub_def minDuration_def maxDuration_def Hours_def go_quot_def
      go_rem_def float64_zero go_int_def)

section \<open>Signature verification\<close>

text \<open>
  Claim C1 says that a mismatch leaves no trace of the digests or of the secret.  For any
  MAC function with digests of 32 bytes, the request with body \<^verbatim>\<open>{}\<close>, header
  \<^verbatim>\<open>sha256=00\<close> and secret \<^verbatim>\<open>s3cret\<close> is refused, \<^verbatim>\<open>ValidateSignature\<close> prints the
  expected and the received digest, and \<^verbatim>\<open>ServeHTTP\<close> logs the secret in hexadecimal.
\<close>

theorem mismatch_prints_digest_and_logs_secret:
  assumes "length (mac ''s3cret'' ''{}'') = 32"
  shows "validate_request mac
           \<lparr>WebhookSecret = ''s3cret'', BackdateSuspiciousHours = 24, BackdateCriticalHours = 72,
            StreakInactivityHours = 72\<rparr>
           ''{}'' ''sha256=00''
         = \<lparr>accepted = False,
            logged = [\<lparr>log_level = ''warn'',
                       log_fields = [ErrField ErrSignatureMismatch,
                                     StrField ''signature_header'' ''sha256=00'',
                                     IntField ''body_len'' 2,
                                     IntField ''secret_len'' 6,
                                     StrField ''secret_hex'' ''733363726574''],
                       log_msg = ''signature validation failed''\<rparr>],
            printed = [''DEBUG: expected='' @ hex (mac ''s3cret'' ''{}'') @ '' received=00'' @ [newline]]\<rparr>"
proof -
  have ne: "mac ''s3cret'' ''{}'' \<noteq> [CHR 0x00]"
    using assms by auto
  have dec: "DecodeString ''00'' = Some [CHR 0x00]"
    by code_simp
  have hx: "hex ''s3cret'' = ''733363726574''" "hex [CHR 0x00] = ''00''"
    by (simp_all add: hex_def hex_byte_def hex_digit_def)
  show ?thesis
    using ne by (simp add: validate_request_def ValidateSignature_def HasPrefix_def TrimPrefix_def dec hx
        del: DecodeString.simps)
qed

theorem mismatch_prints_digest_and_logs_secret_witness:
  "validate_request (\<lambda>key message. replicate 32 (CHR 0xAB))
           \<lparr>WebhookSecret = ''s3cret'', BackdateSuspiciousHours = 24, BackdateCriticalHours = 72,
            StreakInactivityHours = 72\<rparr>
           ''{}'' ''sha256=00''
         = \<lparr>accepted = False,
            logged = [\<lparr>log_level = ''warn'',
                       log_fields = [ErrField ErrSignatureMismatch,
                                     StrField ''signature_header'' ''sha256=00'',
                                     IntField ''body_len'' 2,
                                     IntField ''secret_len'' 6,
                                     StrField ''secret_hex'' ''733363726574''],
                       log_msg = ''signature validation failed''\<rparr>],
            printed = [''DEBUG: expected='' @ concat (replicate 32 ''ab'') @ '' received=00'' @ [newline]]\<rparr>"
proof -
  have "hex (replicate 32 (CHR 0xAB)) = concat (replicate 32 ''ab'')"
    by (simp add: hex_def hex_byte_def hex_digit_def map_replicate_const)
  then show ?thesis
    using mismatch_prints_digest_and_logs_secret [of "\<lambda>key message. replicate 32 (CHR 0xAB)"]
    by simp
qed

section \<open>The two parsers of conventional commits\<close>

lemmas parser_defs =
  parseConventionalCommit_def ParseConventionalCommit_def conventionalCommitRegex_def
  invalid_commit_def indexOf_def slice_def validTypes_def newline_def is_word_def is_space_def
  ToLower_def to_lower_char_def

text \<open>
  Claim C6 says that the type is matched without regard to case by both parsers.  The
  parser of the analysis lowers the case of the type before it looks it up; the parser of
  the webhook looks the type up as it is written, so it does not classify
  \<^verbatim>\<open>FEAT: x\<close> as conventional.
\<close>

theorem webhook_parser_is_case_sensitive:
  "parseConventionalCommit ''FEAT: x'' = (False, [], [])
   \<and> ParseConventionalCommit ''FEAT: x''
       = \<lparr>Type = ''feat'', Scope = [], CCDescription = ''x'', IsBreaking = False, IsValid = True\<rparr>"
  by (simp add: parser_defs)

text \<open>
  Claim C10 says that the two parsers agree on every message.  They disagree on a message
  with the mark of a breaking change and no scope: the parser of the analysis accepts
  \<^verbatim>\<open>feat!: x\<close> with type \<^verbatim>\<open>feat\<close>, the parser of the webhook takes \<^verbatim>\<open>feat!\<close> for the
  type and rejects the message.
\<close>

theorem parsers_disagree_on_breaking_mark:
  "ParseConventionalCommit ''feat!: x''
     = \<lparr>Type = ''feat'', Scope = [], CCDescription = ''x'', IsBreaking = True, IsValid = True\<rparr>
   \<and> parseConventionalCommit ''feat!: x'' = (False, [], [])"
  by (simp add: parser_defs)

section \<open>Storing the commits of a push\<close>

lemmas store_defs =
  processCommit_def updateContributor_def upsert_contributor_def insert_commit_def
  commit_fits_def conflicts_def do_update_def COALESCE_def

lemma backdate_hours_of_deliveries:
  "go_int (Hours (Sub 63902826000000000000 63902822400000000000)) = 1"
  "go_int (Hours (Sub 63902829600000000000 63902822400000000000)) = 2"
  by (simp_all add: Sub_def minDuration_def maxDuration_def hours_of_1h hours_of_2h go_int_def)

lemma parse_feat_add_login:
  "parseConventionalCommit ''feat: add login'' = (True, ''feat'', [])"
  by (simp add: parser_defs)

text \<open>
  Claim C2 says that a second delivery of a commit changes neither the commits nor the
  count of its contributor.  The commit is stored once, by \<^verbatim>\<open>ON CONFLICT (sha) DO NOTHING\<close>,
  but \<^verbatim>\<open>processCommit\<close> goes on to \<^verbatim>\<open>updateContributor\<close> whether or not a row was
  inserted, and the count of the contributor is 2 after the second delivery.
\<close>

theorem duplicate_delivery_counts_twice:
  "(let cfg = \<lparr>WebhookSecret = [], BackdateSuspiciousHours = 24, BackdateCriticalHours = 72,
                StreakInactivityHours = 72\<rparr>;
        commit = \<lparr>ID = ''3f2a9c'', Message = ''feat: add login'', AuthorName = ''Alice'',
                   AuthorEmail = ''alice@example.org'', AuthorLogin = ''alice'',
                   Timestamp = 63902822400000000000\<rparr>;
        st0 = \<lparr>repositories = [42 \<mapsto> 1], commits = [], contributors = [], alerts = []\<rparr>;
        st1 = process_commits cfg st0 42 [commit] 63902826000000000000;
        st2 = process_commits cfg st1 42 [commit] 63902829600000000000
    in map c_sha (commits st1) = [''3f2a9c''] \<and> commits st2 = commits st1
       \<and> map k_total_commits (contributors st1) = [1]
       \<and> map k_total_commits (contributors st2) = [2])"
  by (simp add: Let_def store_defs backdate_hours_of_deliveries parse_feat_add_login)

text \<open>
  Claim C9 says that an empty login or name of a commit leaves the stored one in place.
  The statement protects the stored value with \<^verbatim>\<open>COALESCE\<close>, which passes over
  \<^verbatim>\<open>NULL\<close> only; the handler sends the empty string, and the stored login and name are
  overwritten by it.
\<close>

theorem empty_login_overwrites_stored_login:
  "(let st = \<lparr>repositories = [42 \<mapsto> 1], commits = [],
               contributors = [\<lparr>k_repository_id = 1, k_github_login = Some ''alice'',
                                k_email = Some ''alice@example.org'', k_name = Some ''Alice'',
                                k_total_commits = 1,
                                k_first_commit_at = Some 63902826000000000000,
                                k_last_commit_at = Some 63902826000000000000\<rparr>],
               alerts = []\<rparr>;
        commit = \<lparr>ID = ''77b1e0'', Message = ''fix: typo'', AuthorName = [],
                   AuthorEmail = ''alice@example.org'', AuthorLogin = [],
                   Timestamp = 63902822400000000000\<rparr>
    in contributors (snd (updateContributor st 1 commit 63902829600000000000))
       = [\<lparr>k_repository_id = 1, k_github_login = Some [],
           k_email = Some ''alice@example.org'', k_name = Some [],
           k_total_commits = 2,
           k_first_commit_at = Some 63902826000000000000,
           k_last_commit_at = Some 63902829600000000000\<rparr>])"
  by (simp add: Let_def store_defs)

section \<open>Backdate detection\<close>

text \<open>
  The flags compare the computed difference with the thresholds.  A commit authored after
  the push has a difference of zero or less and is not flagged when the thresholds are not
  negative.  For a commit authored before the push, within the range of a duration, the
  computed difference is the whole number of hours elapsed or that number plus one.
\<close>

lemma backdate_flags_follow_difference:
  "IsSuspicious (AnalyzeBackdate cfg authorDate pushedAt)
     = (BackdateSuspiciousHours cfg < DifferenceHours (AnalyzeBackdate cfg authorDate pushedAt))"
  "IsCritical (AnalyzeBackdate cfg authorDate pushedAt)
     = (BackdateCriticalHours cfg < DifferenceHours (AnalyzeBackdate cfg authorDate pushedAt))"
  by (simp_all add: AnalyzeBackdate_def Let_def)

lemma backdate_not_flagged_when_authored_later:
  assumes "pushedAt \<le> authorDate" "0 \<le> BackdateSuspiciousHours cfg" "0 \<le> BackdateCriticalHours cfg"
  shows "DifferenceHours (AnalyzeBackdate cfg authorDate pushedAt) \<le> 0
         \<and> \<not> IsSuspicious (AnalyzeBackdate cfg authorDate pushedAt)
         \<and> \<not> IsCritical (AnalyzeBackdate cfg authorDate pushedAt)"
proof -
  have "Sub pushedAt authorDate \<le> 0"
    using assms(1) by (simp add: Sub_def minDuration_def maxDuration_def)
  then have "Hours (Sub pushedAt authorDate) \<le> 0" by (rule hours_nonpos)
  then have "go_int (Hours (Sub pushedAt authorDate)) \<le> 0"
    by (simp add: go_int_def ceiling_le_iff)
  then show ?thesis using assms(2,3) by (simp add: AnalyzeBackdate_def Let_def)
qed

lemma backdate_difference_bracket:
  assumes "authorDate \<le> pushedAt" "pushedAt - authorDate \<le> maxDuration"
  shows "(pushedAt - authorDate) div Hour \<le> DifferenceHours (AnalyzeBackdate cfg authorDate pushedAt)
         \<and> DifferenceHours (AnalyzeBackdate cfg authorDate pushedAt) \<le> (pushedAt - authorDate) div Hour + 1"
proof -
  define d where "d = pushedAt - authorDate"
  have sub: "Sub pushedAt authorDate = d"
    using assms by (simp add: Sub_def minDuration_def maxDuration_def d_def)
  have d0: "0 \<le> d" and dm: "d \<le> maxDuration" using assms by (simp_all add: d_def)
  note lo = hours_lower_bound [OF d0 dm] and hi = hours_upper_bound [OF d0 dm]
  have "0 \<le> d div Hour" using d0 by (simp add: Hour_def pos_imp_zdiv_nonneg_iff)
  then have "0 \<le> Hours d" using lo by linarith
  then have gi: "go_int (Hours d) = \<lfloor>Hours d\<rfloor>" by (simp add: go_int_def)
  have "d div Hour \<le> \<lfloor>Hours d\<rfloor>" using lo by (simp add: le_floor_iff)
  moreover have "\<lfloor>Hours d\<rfloor> \<le> d div Hour + 1"
  proof -
    have "\<lfloor>Hours d\<rfloor> \<le> \<lfloor>real_of_int (d div Hour + 1)\<rfloor>"
      by (rule floor_mono) (use hi in simp)
    then show ?thesis by simp
  qed
  ultimately show ?thesis
    by (simp add: AnalyzeBackdate_def Let_def sub gi d_def [symmetric])
qed

text \<open>
  The example of the specification: a commit authored 25 hours before the push is
  suspicious and not critical with the thresholds 24 and 72.  The instants are
  2026-01-01T00:00:00Z and 25 hours later.
\<close>

lemma backdate_example_25_hours:
  "AnalyzeBackdate
     \<lparr>WebhookSecret = [], BackdateSuspiciousHours = 24, BackdateCriticalHours = 72,
      StreakInactivityHours = 72\<rparr>
     63902822400000000000 63902912400000000000
   = \<lparr>CommitSHA = [], AuthorDate = 63902822400000000000, PushedAt = 63902912400000000000,
      DifferenceHours = 25, IsSuspicious = True, IsCritical = False\<rparr>"
proof -
  have "Sub 63902912400000000000 63902822400000000000 = 90000000000000"
    by (simp add: Sub_def minDuration_def maxDuration_def)
  then show ?thesis
    by (simp add: AnalyzeBackdate_def hours_of_25h go_int_def)
qed

text \<open>
  Claim C4 says that the difference in hours is truncated, never rounded.  The hours come
  from \<^verbatim>\<open>Duration.Hours\<close>, a \<^verbatim>\<open>float64\<close>, and the addition inside it rounds: for a commit
  authored at 2026-01-01T00:00:00Z and a push received 4096 hours, 59 minutes and
  59.999999999 seconds later, the detector reports 4097 hours where the quotient of the
  duration by an hour is 4096, and with a threshold of 4096 hours it flags a commit whose
  age in whole hours does not exceed the threshold.
\<close>

theorem backdate_hours_rounded_up:
  "AnalyzeBackdate
     \<lparr>WebhookSecret = [], BackdateSuspiciousHours = 4096, BackdateCriticalHours = 8760,
      StreakInactivityHours = 72\<rparr>
     63902822400000000000 63917571599999999999
   = \<lparr>CommitSHA = [], AuthorDate = 63902822400000000000, PushedAt = 63917571599999999999,
      DifferenceHours = 4097, IsSuspicious = True, IsCritical = False\<rparr>
   \<and> go_quot (Sub 63917571599999999999 63902822400000000000) Hour = 4096"
proof -
  have "Sub 63917571599999999999 63902822400000000000 = 14749199999999999"
    by (simp add: Sub_def minDuration_def maxDuration_def)
  then show ?thesis
    by (simp add: AnalyzeBackdate_def hours_of_4096h_59m_59_999999999s go_int_def go_quot_def
        Hour_def)
qed

section \<open>The Gini coefficient\<close>

lemma gini_loop_exact:
  "gini_loop (\<lambda>x. x) i (s, c) vs
   = (s + (\<Sum>k \<leftarrow> [0 ..< length vs]. of_nat (i + k + 1) * vs ! k), c + sum_list vs)"
proof (induction vs arbitrary: i s c)
  case Nil
  show ?case by simp
next
  case (Cons v vs)
  have idx: "[0 ..< length (v # vs)] = 0 # map Suc [0 ..< length vs]"
    by (simp add: upt_conv_Cons map_Suc_upt del: upt_Suc)
  show ?case
    unfolding gini_loop.simps Cons.IH idx
    by (simp add: comp_def add.assoc)
qed

lemma positions_from_one:
  "(\<Sum>i \<leftarrow> [1 ..< n + 1]. of_nat i * s ! (i - 1)) = (\<Sum>k \<leftarrow> [0 ..< n]. of_nat (0 + k + 1) * (s ! k :: real))"
proof -
  have "[1 ..< n + 1] = map Suc [0 ..< n]"
    by (simp add: map_Suc_upt del: upt_Suc)
  then show ?thesis by (simp add: comp_def)
qed

lemma sum_list_insort: "sum_list (insort x xs) = x + sum_list (xs :: real list)"
  by (induction xs) simp_all

lemma sum_list_sort: "sum_list (sort xs) = sum_list (xs :: real list)"
  by (induction xs) (simp_all add: sum_list_insort)

lemma gini_exact_is_formula:
  assumes "values \<noteq> []" "sum_list values \<noteq> 0"
  shows "gini_formula values = Some (calculateGini_in (\<lambda>x. x) values)"
proof -
  have len: "length (sort values) = length values" by simp
  note sm = sum_list_sort [of "values"]
  have n0: "length values \<noteq> 0" using assms by simp
  have ne: "sort values \<noteq> []"
    using assms(1) by (cases "values") simp_all
  have pos: "(\<Sum>i \<leftarrow> [1 ..< length values + 1]. of_nat i * sort values ! (i - 1))
             = (\<Sum>k \<leftarrow> [0 ..< length values]. of_nat (0 + k + 1) * sort values ! k)"
    by (rule positions_from_one)
  have loop: "gini_loop (\<lambda>x. x) 0 (0, 0) (sort values)
     = ((\<Sum>k \<leftarrow> [0 ..< length values]. of_nat (0 + k + 1) * sort values ! k), sum_list values)"
    by (simp add: gini_loop_exact sm)
  have "gini_formula values
        = Some (2 * (\<Sum>k \<leftarrow> [0 ..< length values]. of_nat (0 + k + 1) * sort values ! k)
                  / (of_nat (length values) * sum_list values)
                - (of_nat (length values) + 1) / of_nat (length values))"
    unfolding gini_formula_def Let_def length_sort sm pos using assms n0 by simp
  moreover have "calculateGini_in (\<lambda>x. x) values
        = 2 * (\<Sum>k \<leftarrow> [0 ..< length values]. of_nat (0 + k + 1) * sort values ! k)
                  / (of_nat (length values) * sum_list values)
                - (of_nat (length values) + 1) / of_nat (length values)"
    unfolding calculateGini_in_def Let_def loop using assms n0 by simp
  ultimately show ?thesis by simp
qed

lemma gini_exact_zero_sum:
  assumes "sum_list values = 0"
  shows "calculateGini_in (\<lambda>x. x) values = 0"
proof -
  note sm = sum_list_sort [of "values"]
  show ?thesis using assms
    by (simp add: calculateGini_in_def Let_def gini_loop_exact sm)
qed

lemma gini_loop_exact_replicate:
  "gini_loop (\<lambda>x. x) i (s, c) (replicate m v)
   = (s + v * (of_nat m * of_nat i + of_nat m * (of_nat m + 1) / 2), c + of_nat m * v)"
proof (induction m arbitrary: i s c)
  case 0
  show ?case by simp
next
  case (Suc m)
  show ?case
    unfolding replicate_Suc gini_loop.simps Suc.IH
    by (simp add: field_simps)
qed

lemma gini_exact_equal_shares:
  assumes "0 < n" "v \<noteq> 0"
  shows "calculateGini_in (\<lambda>x. x) (replicate n v) = 0"
proof -
  have srt: "sort (replicate n v) = replicate n v"
    by (simp add: sorted_sort_id sorted_replicate)
  show ?thesis using assms
    by (simp add: calculateGini_in_def Let_def srt gini_loop_exact_replicate field_simps)
qed

lemma gini_of_four_equal_shares: "calculateGini [25, 25, 25, 25] = 0"
  by (simp add: calculateGini_def calculateGini_in_def float_eval)

lemma gini_example_value: "calculateGini_in (\<lambda>x. x) [40, 10, 30, 20] = 1 / 4"
  by (simp add: calculateGini_in_def)

text \<open>
  Claim C5, as it is written, gives the formula for every list of shares that is not empty.
  When the shares sum to zero (contributors without commits) the quotient of the formula
  has no value, and \<^verbatim>\<open>calculateGini\<close> returns 0 by its guard \<^verbatim>\<open>cumSum == 0\<close>.
\<close>

theorem gini_zero_sum_has_no_formula_value:
  "calculateGini [0, 0] = 0 \<and> gini_formula [0, 0] = None"
  by (simp add: calculateGini_def calculateGini_in_def gini_formula_def float64_zero)

subsection \<open>The rounding errors of the computation\<close>

text \<open>
  The loop on shares that are zero or normal numbers, compared with the loop in exact
  arithmetic: after \<open>m\<close> shares both sums are within \<open>m + 1\<close> roundings of the exact sums, and
  they are zero or normal numbers.
\<close>

lemma gini_loop_near:
  assumes "\<forall>v \<in> set vs. v = 0 \<or> min_normal \<le> v"
    and "near a s s'" and "near a c c'"
    and "s = 0 \<or> min_normal \<le> s" and "c = 0 \<or> min_normal \<le> c"
    and "1 \<le> a" and "i + length vs < 2 ^ 53"
  shows "near (a + length vs) (fst (gini_loop float64 i (s, c) vs))
           (fst (gini_loop (\<lambda>x. x) i (s', c') vs))
       \<and> near (a + length vs) (snd (gini_loop float64 i (s, c) vs))
           (snd (gini_loop (\<lambda>x. x) i (s', c') vs))
       \<and> (fst (gini_loop float64 i (s, c) vs) = 0
            \<or> min_normal \<le> fst (gini_loop float64 i (s, c) vs))
       \<and> (snd (gini_loop float64 i (s, c) vs) = 0
            \<or> min_normal \<le> snd (gini_loop float64 i (s, c) vs))"
  using assms
proof (induction vs arbitrary: i a s c s' c')
  case Nil
  then show ?case by simp
next
  case (Cons v vs)
  let ?m = "min_normal"
  have m0: "0 < ?m" by (rule min_normal_pos)
  have v: "v = 0 \<or> ?m \<le> v" using Cons.prems(1) by simp
  then have v0: "0 \<le> v" using m0 by auto
  have s0: "0 \<le> s" and c0: "0 \<le> c" using Cons.prems(2,3) by (simp_all add: near_def)
  have "i + 1 < 2 ^ 53" using Cons.prems(7) by simp
  then have fi: "float64 (of_nat (i + 1)) = of_nat (i + 1)" by (rule float64_of_nat)
  define p where "p = real (i + 1) * v"
  have p0: "0 \<le> p" using v0 by (simp add: p_def)
  have p: "p = 0 \<or> ?m \<le> p"
  proof (cases "v = 0")
    case True
    then show ?thesis by (simp add: p_def)
  next
    case False
    then have "?m \<le> v" using v by simp
    moreover have "1 * v \<le> real (i + 1) * v" using v0 by (intro mult_right_mono) simp_all
    ultimately show ?thesis by (simp add: p_def)
  qed
  define t where "t = float64 p"
  have "near 0 p p" using p0 by (rule near_refl)
  then have tn: "near (Suc 0) t p" unfolding t_def using p by (rule near_round)
  have t0: "0 \<le> t" unfolding t_def using p0 by (rule float64_nonneg)
  have tm: "t = 0 \<or> ?m \<le> t"
    using p float64_normal(2) [of p] by (auto simp: t_def float64_zero)
  have "near a t p" using tn by (rule near_mono) (use Cons.prems(6) in simp)
  with Cons.prems(2) have st: "near a (s + t) (s' + p)" by (rule near_add)
  have stm: "s + t = 0 \<or> ?m \<le> s + t"
    using Cons.prems(4) tm s0 t0 by auto
  define s1 where "s1 = float64 (s + t)"
  have s1n: "near (Suc a) s1 (s' + p)" unfolding s1_def using st stm by (rule near_round)
  have s1m: "s1 = 0 \<or> ?m \<le> s1"
    using stm float64_normal(2) [of "s + t"] by (auto simp: s1_def float64_zero)
  have "near a v v" using v0 by (rule near_refl)
  with Cons.prems(3) have cv: "near a (c + v) (c' + v)" by (rule near_add)
  have cvm: "c + v = 0 \<or> ?m \<le> c + v"
    using Cons.prems(5) v c0 v0 by auto
  define c1 where "c1 = float64 (c + v)"
  have c1n: "near (Suc a) c1 (c' + v)" unfolding c1_def using cv cvm by (rule near_round)
  have c1m: "c1 = 0 \<or> ?m \<le> c1"
    using cvm float64_normal(2) [of "c + v"] by (auto simp: c1_def float64_zero)
  have step_f: "gini_loop float64 i (s, c) (v # vs) = gini_loop float64 (Suc i) (s1, c1) vs"
    unfolding gini_loop.simps fi s1_def t_def p_def c1_def ..
  have step_e: "gini_loop (\<lambda>x. x) i (s', c') (v # vs) = gini_loop (\<lambda>x. x) (Suc i) (s' + p, c' + v) vs"
    unfolding gini_loop.simps p_def ..
  have IH: "near (Suc a + length vs) (fst (gini_loop float64 (Suc i) (s1, c1) vs))
           (fst (gini_loop (\<lambda>x. x) (Suc i) (s' + p, c' + v) vs))
       \<and> near (Suc a + length vs) (snd (gini_loop float64 (Suc i) (s1, c1) vs))
           (snd (gini_loop (\<lambda>x. x) (Suc i) (s' + p, c' + v) vs))
       \<and> (fst (gini_loop float64 (Suc i) (s1, c1) vs) = 0
            \<or> min_normal \<le> fst (gini_loop float64 (Suc i) (s1, c1) vs))
       \<and> (snd (gini_loop float64 (Suc i) (s1, c1) vs) = 0
            \<or> min_normal \<le> snd (gini_loop float64 (Suc i) (s1, c1) vs))"
  proof (rule Cons.IH)
    show "\<forall>v \<in> set vs. v = 0 \<or> ?m \<le> v" using Cons.prems(1) by simp
    show "near (Suc a) s1 (s' + p)" by (rule s1n)
    show "near (Suc a) c1 (c' + v)" by (rule c1n)
    show "s1 = 0 \<or> ?m \<le> s1" by (rule s1m)
    show "c1 = 0 \<or> ?m \<le> c1" by (rule c1m)
    show "1 \<le> Suc a" by simp
    show "Suc i + length vs < 2 ^ 53" using Cons.prems(7) by simp
  qed
  show ?case unfolding step_f step_e using IH by simp
qed

lemma gini_positions_bounds:
  fixes vs :: "real list"
  assumes "\<forall>v \<in> set vs. 0 \<le> v"
  shows "sum_list vs \<le> (\<Sum>k \<leftarrow> [0 ..< length vs]. of_nat (0 + k + 1) * vs ! k)"
    and "(\<Sum>k \<leftarrow> [0 ..< length vs]. of_nat (0 + k + 1) * vs ! k) \<le> of_nat (length vs) * sum_list vs"
proof -
  have nth: "sum_list vs = (\<Sum>k \<leftarrow> [0 ..< length vs]. vs ! k)"
    by (simp add: map_nth)
  have nn: "0 \<le> vs ! k" if "k \<in> set [0 ..< length vs]" for k
    using that assms by simp
  have "(\<Sum>k \<leftarrow> [0 ..< length vs]. vs ! k) \<le> (\<Sum>k \<leftarrow> [0 ..< length vs]. of_nat (0 + k + 1) * vs ! k)"
  proof (rule sum_list_mono)
    fix k assume k: "k \<in> set [0 ..< length vs]"
    have "1 * vs ! k \<le> real (0 + k + 1) * vs ! k"
      using nn [OF k] by (intro mult_right_mono) simp_all
    then show "vs ! k \<le> of_nat (0 + k + 1) * vs ! k" by simp
  qed
  then show "sum_list vs \<le> (\<Sum>k \<leftarrow> [0 ..< length vs]. of_nat (0 + k + 1) * vs ! k)"
    by (simp only: nth [symmetric])
  have "(\<Sum>k \<leftarrow> [0 ..< length vs]. of_nat (0 + k + 1) * vs ! k)
        \<le> (\<Sum>k \<leftarrow> [0 ..< length vs]. of_nat (length vs) * vs ! k)"
  proof (rule sum_list_mono)
    fix k assume k: "k \<in> set [0 ..< length vs]"
    then have "real (0 + k + 1) \<le> real (length vs)" by simp
    then show "of_nat (0 + k + 1) * vs ! k \<le> of_nat (length vs) * vs ! k"
      using nn [OF k] by (intro mult_right_mono)
  qed
  also have "\<dots> = of_nat (length vs) * (\<Sum>k \<leftarrow> [0 ..< length vs]. vs ! k)"
    by (simp add: sum_list_const_mult)
  finally show "(\<Sum>k \<leftarrow> [0 ..< length vs]. of_nat (0 + k + 1) * vs ! k) \<le> of_nat (length vs) * sum_list vs"
    by (simp only: nth [symmetric])
qed

text \<open>
  The result of \<^verbatim>\<open>calculateGini\<close> on \<open>n\<close> shares that are zero or normal numbers: the
  quotient \<open>2 \<cdot> sum / (n \<cdot> cumSum)\<close> is within \<open>2 \<cdot> n + 5\<close> roundings of the exact quotient, which
  lies between \<open>2 / n\<close> and 2, and the result differs from the exact one by at most
  \<open>(8 \<cdot> n + 28) \<cdot> 2\<^sup>-\<^sup>5\<^sup>3\<close>.
\<close>

lemma calculateGini_error:
  assumes ne: "values \<noteq> []" and len: "length values \<le> 1000000"
    and rng: "\<forall>v \<in> set values. v = 0 \<or> min_normal \<le> v"
  shows "sum_list values = 0 \<Longrightarrow> calculateGini values = 0"
    and "sum_list values \<noteq> 0 \<Longrightarrow>
         \<bar>calculateGini values - calculateGini_in (\<lambda>x. x) values\<bar> \<le> 1 / 10 ^ 9"
proof -
  define n where "n = length values"
  define srt where "srt = sort values"
  define se where "se = (\<Sum>k \<leftarrow> [0 ..< length srt]. of_nat (0 + k + 1) * srt ! k)"
  define ce where "ce = sum_list values"
  have n1: "1 \<le> n" and nM: "n \<le> 1000000"
    using ne len by (simp_all add: n_def Suc_le_eq)
  have lsrt: "length srt = n" by (simp add: srt_def n_def)
  have rng': "\<forall>v \<in> set srt. v = 0 \<or> min_normal \<le> v" using rng by (simp add: srt_def)
  have nonneg: "\<forall>v \<in> set srt. 0 \<le> v"
    using rng' min_normal_pos by (auto intro: less_imp_le less_le_trans)
  have csum: "sum_list srt = ce" by (simp add: srt_def ce_def sum_list_sort)
  have ce0: "0 \<le> ce" unfolding csum [symmetric] using nonneg by (intro sum_list_nonneg) simp
  obtain sf cf where L: "gini_loop float64 0 (0, 0) srt = (sf, cf)" by fastforce
  have E: "gini_loop (\<lambda>x. x) 0 (0, 0) srt = (se, ce)"
    by (simp add: gini_loop_exact se_def csum)
  have "near 1 0 0" by (rule near_refl) simp
  then have "near (1 + length srt) (fst (gini_loop float64 0 (0, 0) srt))
           (fst (gini_loop (\<lambda>x. x) 0 (0, 0) srt))
       \<and> near (1 + length srt) (snd (gini_loop float64 0 (0, 0) srt))
           (snd (gini_loop (\<lambda>x. x) 0 (0, 0) srt))
       \<and> (fst (gini_loop float64 0 (0, 0) srt) = 0
            \<or> min_normal \<le> fst (gini_loop float64 0 (0, 0) srt))
       \<and> (snd (gini_loop float64 0 (0, 0) srt) = 0
            \<or> min_normal \<le> snd (gini_loop float64 0 (0, 0) srt))"
    using rng' nM by (intro gini_loop_near) (simp_all add: lsrt)
  then have ns: "near (n + 1) sf se" and nc: "near (n + 1) cf ce"
    and sfm: "sf = 0 \<or> min_normal \<le> sf" and cfm: "cf = 0 \<or> min_normal \<le> cf"
    by (simp_all add: L E lsrt)
  have cg: "calculateGini values =
        (if cf = 0 then 0
         else float64 (float64 (float64 (2 * sf) / float64 (float64 (of_nat n) * cf))
                       - float64 (float64 (float64 (of_nat n) + 1) / float64 (of_nat n))))"
    using ne by (simp add: calculateGini_def calculateGini_in_def Let_def srt_def [symmetric] L n_def)
  have ce_exact: "calculateGini_in (\<lambda>x. x) values =
        (if ce = 0 then 0 else 2 * se / (of_nat n * ce) - (of_nat n + 1) / of_nat n)"
    using ne by (simp add: calculateGini_in_def Let_def srt_def [symmetric] E n_def)
  {
    assume "sum_list values = 0"
    then have "near (n + 1) cf 0" using nc by (simp add: ce_def)
    then have "cf = 0" by (rule near_zero)
    then show "calculateGini values = 0" by (simp add: cg)
  }
  {
    assume "sum_list values \<noteq> 0"
    then have cep: "0 < ce" using ce0 by (simp add: ce_def)
    have cfp: "0 < cf" using nc cep by (rule near_pos)
    then have cfn: "min_normal \<le> cf" using cfm by simp
    have se_lo: "ce \<le> se" and se_hi: "se \<le> of_nat n * ce"
      using gini_positions_bounds [OF nonneg] by (simp_all add: se_def csum lsrt)
    have sep: "0 < se" using cep se_lo by linarith
    have sfp: "0 < sf" using ns sep by (rule near_pos)
    then have sfn: "min_normal \<le> sf" using sfm by simp
    have nr: "0 < real n" using n1 by simp
    have n53: "n < 2 ^ 53" and n153: "n + 1 < 2 ^ 53" using nM by simp_all
    have fn: "float64 (of_nat n) = of_nat n" using n53 by (rule float64_of_nat)
    have "float64 (of_nat (n + 1)) = of_nat (n + 1)" using n153 by (rule float64_of_nat)
    then have fn1: "float64 (of_nat n + 1) = of_nat n + 1" by (simp add: add.commute)
    define N2 where "N2 = float64 (2 * sf)"
    define D where "D = float64 (of_nat n * cf)"
    define A where "A = float64 (N2 / D)"
    define B where "B = float64 ((of_nat n + 1) / of_nat n)"
    define A' where "A' = 2 * se / (of_nat n * ce)"
    define B' where "B' = (real n + 1) / real n"
    have G: "calculateGini values = float64 (A - B)"
      using cfp by (simp add: cg fn fn1 N2_def D_def A_def B_def)
    have G': "calculateGini_in (\<lambda>x. x) values = A' - B'"
      using cep by (simp add: ce_exact A'_def B'_def)
    have "near 0 2 2" by (rule near_refl) simp
    then have "near (0 + (n + 1)) (2 * sf) (2 * se)" using ns by (rule near_mult)
    moreover have "2 * sf = 0 \<or> min_normal \<le> 2 * sf" using sfn sfp by simp
    ultimately have nN2: "near (Suc (0 + (n + 1))) N2 (2 * se)"
      unfolding N2_def by (rule near_round)
    have "near 0 (real n) (real n)" by (rule near_refl) simp
    then have "near (0 + (n + 1)) (real n * cf) (real n * ce)" using nc by (rule near_mult)
    moreover have "real n * cf = 0 \<or> min_normal \<le> real n * cf"
    proof -
      have "1 * cf \<le> real n * cf" using n1 cfp by (intro mult_right_mono) simp_all
      then show ?thesis using cfn by simp
    qed
    ultimately have nD: "near (Suc (0 + (n + 1))) D (real n * ce)"
      unfolding D_def by (rule near_round)
    have dpos: "0 < real n * ce" using nr cep by (rule mult_pos_pos)
    have nQ: "near (Suc (0 + (n + 1)) + Suc (0 + (n + 1))) (N2 / D) A'"
      unfolding A'_def using nN2 nD dpos by (rule near_divide)
    have A'_lo: "2 / real n \<le> A'"
    proof -
      have "2 * ce / (real n * ce) \<le> 2 * se / (real n * ce)"
        using se_lo dpos by (intro divide_right_mono) simp_all
      then show ?thesis using cep by (simp add: A'_def)
    qed
    have A'_hi: "A' \<le> 2"
    proof -
      have "2 * se / (real n * ce) \<le> 2 * (real n * ce) / (real n * ce)"
        using se_hi dpos by (intro divide_right_mono) simp_all
      also have "\<dots> = 2" using nr cep by simp
      finally show ?thesis by (simp only: A'_def)
    qed
    have A'_pos: "0 < A'" using A'_lo nr by (meson divide_pos_pos less_le_trans zero_less_numeral)
    have kq: "Suc (0 + (n + 1)) + Suc (0 + (n + 1)) = 2 * n + 4" by simp
    have nQ': "near (2 * n + 4) (N2 / D) A'" using nQ by (simp only: kq)
    define w where "w = 2 * real (2 * n + 4) / 2 ^ 53"
    have eQ: "\<bar>N2 / D - A'\<bar> \<le> A' * w"
      unfolding w_def using nQ' by (rule near_error) (use nM in simp)
    have "w \<le> 1 / 2" using nM by (simp add: w_def)
    then have "A' * w \<le> A' * (1 / 2)"
      using A'_pos by (intro mult_left_mono) simp_all
    then have "A' - A' * (1 / 2) \<le> N2 / D" using eQ by linarith
    then have "A' / 2 \<le> N2 / D" by simp
    moreover have "1 / 1000000 \<le> A' / 2"
    proof -
      have "1 / 1000000 \<le> 1 / real n" using nM n1 by (intro divide_left_mono) simp_all
      then show ?thesis using A'_lo by simp
    qed
    ultimately have Qn: "min_normal \<le> N2 / D" using min_normal_le by linarith
    have nA: "near (Suc (2 * n + 4)) A A'"
      unfolding A_def using nQ' Qn by (intro near_round) simp_all
    have eA: "\<bar>A - A'\<bar> \<le> A' * (2 * real (Suc (2 * n + 4)) / 2 ^ 53)"
      using nA by (rule near_error) (use nM in simp)
    have B'_lo: "1 \<le> B'" and B'_hi: "B' \<le> 2"
      using n1 nr by (simp_all add: B'_def field_simps)
    have "near 0 B' B'" by (rule near_refl) (use B'_lo in simp)
    moreover have "B' = 0 \<or> min_normal \<le> B'" using B'_lo min_normal_le by simp
    ultimately have nB: "near (Suc 0) B B'"
      unfolding B_def B'_def [symmetric] by (rule near_round)
    have eB: "\<bar>B - B'\<bar> \<le> B' * (2 * real (Suc 0) / 2 ^ 53)"
      using nB by (rule near_error) simp
    define u where "u = (1 / 2 ^ 53 :: real)"
    have u0: "0 \<le> u" and u_small: "(8 * 1000000 + 28) * u \<le> 1 / 10 ^ 9"
      by (simp_all add: u_def)
    have eA': "\<bar>A - A'\<bar> \<le> (8 * real n + 20) * u"
    proof -
      have "A' * (2 * real (Suc (2 * n + 4)) / 2 ^ 53) \<le> 2 * (2 * real (Suc (2 * n + 4)) / 2 ^ 53)"
        using A'_hi by (intro mult_right_mono) simp_all
      also have "\<dots> = (8 * real n + 20) * u" by (simp add: u_def)
      finally show ?thesis using eA by linarith
    qed
    have eB': "\<bar>B - B'\<bar> \<le> 4 * u"
    proof -
      have "B' * (2 * real (Suc 0) / 2 ^ 53) \<le> 2 * (2 * real (Suc 0) / 2 ^ 53)"
        using B'_hi by (intro mult_right_mono) simp_all
      also have "\<dots> = 4 * u" by (simp add: u_def)
      finally show ?thesis using eB by linarith
    qed
    have nu: "(8 * real n + 28) * u \<le> (8 * 1000000 + 28) * u"
      using nM u0 by (intro mult_right_mono) simp_all
    have AB: "\<bar>A - B\<bar> \<le> 3"
    proof -
      have "\<bar>A' - B'\<bar> \<le> 2" using A'_pos A'_hi B'_lo B'_hi by (simp add: abs_le_iff)
      moreover have "(8 * real n + 20) * u + 4 * u \<le> 1"
        using nu u_small by (simp add: algebra_simps)
      ultimately show ?thesis using eA' eB' by linarith
    qed
    have "\<bar>float64 (A - B) - (A - B)\<bar> \<le> \<bar>A - B\<bar> / 2 ^ 53 + 2 powi (- 1075)"
      by (rule float64_error)
    moreover have "(2::real) powi (- 1075) \<le> 2 powi (- 53)"
      by (rule power_int_increasing) simp_all
    then have "(2::real) powi (- 1075) \<le> u" by (simp add: u_def power_int_minus inverse_eq_divide)
    moreover have "\<bar>A - B\<bar> / 2 ^ 53 \<le> 3 * u"
      using AB by (simp add: u_def)
    ultimately have eG: "\<bar>float64 (A - B) - (A - B)\<bar> \<le> 4 * u" by linarith
    have "\<bar>float64 (A - B) - (A' - B')\<bar> \<le> (8 * real n + 28) * u"
      using eG eA' eB' by (simp add: algebra_simps)
    then show "\<bar>calculateGini values - calculateGini_in (\<lambda>x. x) values\<bar> \<le> 1 / 10 ^ 9"
      unfolding G G' using nu u_small by linarith
  }
qed

text \<open>
  Claim C5, amended.  The shares are percentages: each is 0 or lies between the smallest
  normal number and 100.  For every list of at most a million such shares that is not
  empty: when the shares sum to zero the result of \<^verbatim>\<open>calculateGini\<close> is 0; otherwise the
  formula on the shares in increasing order, with positions from 1, has a value and the
  result of \<^verbatim>\<open>calculateGini\<close>, computed in \<^verbatim>\<open>float64\<close>, is within \<open>10\<^sup>-\<^sup>9\<close> of it.  In
  particular the result for \<open>n \<ge> 2\<close> equal positive shares is 0 within \<open>10\<^sup>-\<^sup>9\<close>, and the
  result for the shares 25, 25, 25, 25 is 0.
\<close>

theorem gini_is_formula_within_tolerance:
  assumes "values \<noteq> []" and "length values \<le> 1000000"
    and "\<forall>v \<in> set values. v = 0 \<or> (min_normal \<le> v \<and> v \<le> 100)"
  shows "(if sum_list values = 0 then calculateGini values = 0
          else \<exists>G. gini_formula values = Some G \<and> \<bar>calculateGini values - G\<bar> \<le> 1 / 10 ^ 9)
         \<and> (2 \<le> length values \<and> (\<exists>v. 0 < v \<and> values = replicate (length values) v)
              \<longrightarrow> \<bar>calculateGini values\<bar> \<le> 1 / 10 ^ 9)
         \<and> calculateGini [25, 25, 25, 25] = 0"
proof -
  have rng: "\<forall>v \<in> set values. v = 0 \<or> min_normal \<le> v" using assms(3) by blast
  note err = calculateGini_error [OF assms(1,2) rng]
  have one: "if sum_list values = 0 then calculateGini values = 0
          else \<exists>G. gini_formula values = Some G \<and> \<bar>calculateGini values - G\<bar> \<le> 1 / 10 ^ 9"
    using err gini_exact_is_formula [OF assms(1)] by auto
  have two: "\<bar>calculateGini values\<bar> \<le> 1 / 10 ^ 9"
    if n: "2 \<le> length values" and eq: "\<exists>v. 0 < v \<and> values = replicate (length values) v"
  proof -
    from eq obtain v where v: "0 < v" and vs: "values = replicate (length values) v" by blast
    have "sum_list values = real (length values) * v"
      by (subst vs) (simp add: sum_list_replicate)
    moreover have "0 < real (length values)" using assms(1) by simp
    ultimately have "sum_list values \<noteq> 0" using v by simp
    then have "\<bar>calculateGini values - calculateGini_in (\<lambda>x. x) values\<bar> \<le> 1 / 10 ^ 9"
      by (rule err(2))
    moreover have "0 < length values" and "v \<noteq> 0" using assms(1) v by simp_all
    then have "calculateGini_in (\<lambda>x. x) (replicate (length values) v) = 0"
      by (rule gini_exact_equal_shares)
    then have "calculateGini_in (\<lambda>x. x) values = 0" using vs by simp
    ultimately show ?thesis by simp
  qed
  show ?thesis using one two gini_of_four_equal_shares by blast
qed

text \<open>
  The shares 40, 10, 30, 20, for which the formula gives \<open>1 / 4\<close>, and three shares of 7.
\<close>

theorem gini_is_formula_within_tolerance_witness:
  "gini_formula [40, 10, 30, 20] = Some (1 / 4)
   \<and> \<bar>calculateGini [40, 10, 30, 20] - 1 / 4\<bar> \<le> 1 / 10 ^ 9
   \<and> \<bar>calculateGini [7, 7, 7]\<bar> \<le> 1 / 10 ^ 9"
proof -
  have f: "gini_formula [40, 10, 30, 20] = Some (1 / 4)"
    by (simp add: gini_formula_def)
  have "\<exists>G. gini_formula [40, 10, 30, 20] = Some G
            \<and> \<bar>calculateGini [40, 10, 30, 20] - G\<bar> \<le> 1 / 10 ^ 9"
    using gini_is_formula_within_tolerance [of "[40, 10, 30, 20]"]
    by (simp add: min_normal_def)
  then obtain G where "gini_formula [40, 10, 30, 20] = Some G"
    and g: "\<bar>calculateGini [40, 10, 30, 20] - G\<bar> \<le> 1 / 10 ^ 9" by blast
  with f have "G = 1 / 4" by simp
  with g have one: "\<bar>calculateGini [40, 10, 30, 20] - 1 / 4\<bar> \<le> 1 / 10 ^ 9" by simp
  have r: "[7, 7, 7 :: real] = replicate (length [7, 7, 7 :: real]) 7"
    by (simp add: numeral_3_eq_3)
  have "\<exists>v :: real. 0 < v \<and> [7, 7, 7] = replicate (length [7, 7, 7 :: real]) v"
    using r by (intro exI [of _ 7]) simp
  then have two: "\<bar>calculateGini [7, 7, 7]\<bar> \<le> 1 / 10 ^ 9"
    using gini_is_formula_within_tolerance [of "[7, 7, 7]"]
    by (simp add: min_normal_def)
  show ?thesis using f one two by simp
qed

section \<open>The analysis of the volume\<close>

lemma add_totals_TotalCommits:
  "TotalCommits (add_totals an as) = TotalCommits an + sum_list (map Commits as)"
  by (induction as arbitrary: an) (simp_all add: Let_def)

lemma add_totals_ActiveDays:
  "ActiveDays (add_totals an as) = ActiveDays an + int (length (filter (\<lambda>a. 0 < Commits a) as))"
  by (induction as arbitrary: an) (simp_all add: Let_def)

lemma add_totals_DailyBreakdown:
  "DailyBreakdown (add_totals an as) = DailyBreakdown an"
  by (induction as arbitrary: an) (simp_all add: Let_def)

lemma determinePattern_fields:
  "TotalCommits (determinePattern a) = TotalCommits a"
  "ActiveDays (determinePattern a) = ActiveDays a"
  "TotalDays (determinePattern a) = TotalDays a"
  "DailyBreakdown (determinePattern a) = DailyBreakdown a"
  by (simp_all add: determinePattern_def Let_def)

lemma determinePattern_ConsistencyScore:
  "ConsistencyScore (determinePattern a) = ConsistencyScore a"
  by (simp add: determinePattern_def Let_def)

lemma sum_list_insort_key:
  "sum_list (map g (insort_key f x xs)) = (g x :: int) + sum_list (map g xs)"
  by (induction xs) simp_all

lemma sum_list_sort_key:
  "sum_list (map g (sort_key f xs)) = (sum_list (map g xs) :: int)"
  by (induction xs) (simp_all add: sum_list_insort_key)

lemma sort_key_Nil_iff: "sort_key f xs = [] \<longleftrightarrow> xs = []"
  by (cases xs) simp_all

lemma AnalyzeVolume_view:
  "TotalCommits (AnalyzeVolume activities s e) = sum_list (map Commits activities)"
  "map DayCommits (DailyBreakdown (AnalyzeVolume activities s e)) = map Commits (sort_key Date activities)"
  "ActiveDays (AnalyzeVolume activities s e)
     = int (length (filter (\<lambda>a. 0 < Commits a) (sort_key Date activities)))"
  by (simp_all add: AnalyzeVolume_def Let_def determinePattern_fields empty_analysis_def
      add_totals_TotalCommits add_totals_ActiveDays add_totals_DailyBreakdown sum_list_sort_key comp_def sort_key_Nil_iff)

lemma AnalyzeVolume_ConsistencyScore:
  assumes "activities \<noteq> []"
  shows "ConsistencyScore (AnalyzeVolume activities s e)
     = calculateConsistencyScore (sort_key Date activities) (TotalDays (AnalyzeVolume activities s e))"
  using assms
  by (simp add: AnalyzeVolume_def Let_def determinePattern_fields determinePattern_ConsistencyScore)

lemma AnalyzeVolume_TotalDays:
  assumes "activities \<noteq> []" "IsZero s \<or> IsZero e"
  shows "TotalDays (AnalyzeVolume activities s e)
     = days_between (Date (hd (sort_key Date activities))) (Date (last (sort_key Date activities)))"
  using assms
  by (auto simp add: AnalyzeVolume_def Let_def determinePattern_fields empty_analysis_def
      sort_key_Nil_iff)

lemma spread_of_sorted_days:
  fixes ds :: "int list"
  assumes "sorted ds" "distinct ds" "\<forall>d \<in> set ds. d mod D = 0" "0 < D" "ds \<noteq> []"
  shows "(int (length ds) - 1) * D \<le> last ds - hd ds"
  using assms
proof (induction ds rule: list.induct)
  case Nil
  then show ?case by simp
next
  case (Cons x xs)
  show ?case
  proof (cases xs)
    case Nil
    then show ?thesis by simp
  next
    case (Cons y ys)
    have IH: "(int (length xs) - 1) * D \<le> last xs - hd xs"
      using Cons.IH Cons.prems Cons by simp
    have "x < y" using Cons.prems Cons by auto
    moreover have "x mod D = 0" "y mod D = 0" using Cons.prems Cons by auto
    ultimately have "D \<le> y - x"
      by (metis Cons.prems(4) diff_gt_0_iff_gt mod_diff_eq mod_0 zmod_eq_0_iff zdvd_imp_le dvd_def mod_eq_0_iff_dvd diff_zero)
    then show ?thesis using IH Cons by (simp add: algebra_simps)
  qed
qed

lemma distinct_map_sort_key:
  assumes "distinct (map f xs)"
  shows "distinct (map f (sort_key g xs))"
proof -
  have "card (set (map f (sort_key g xs))) = card (set (map f xs))" by simp
  also have "\<dots> = length (map f xs)" using assms by (rule distinct_card)
  also have "\<dots> = length (map f (sort_key g xs))" by simp
  finally show ?thesis by (rule card_distinct)
qed

lemma AnalyzeVolume_TotalDays_window:
  assumes "activities \<noteq> []" "\<not> IsZero s" "\<not> IsZero e"
  shows "TotalDays (AnalyzeVolume activities s e) = days_between s e"
  using assms
  by (simp add: AnalyzeVolume_def Let_def determinePattern_fields empty_analysis_def)

lemma active_days_le_total_days:
  assumes win: "IsZero s \<or> IsZero e \<or> (\<forall>a \<in> set activities. s \<le> Date a \<and> Date a \<le> e)"
    and dist: "distinct (map Date activities)"
    and mid: "\<forall>a \<in> set activities. Date a mod 86400000000000 = 0"
    and span: "\<forall>a \<in> set activities. \<forall>b \<in> set activities. Date b - Date a \<le> maxDuration"
  shows "ActiveDays (AnalyzeVolume activities s e) \<le> TotalDays (AnalyzeVolume activities s e)"
proof (cases "activities = []")
  case True
  then show ?thesis by (simp add: AnalyzeVolume_def empty_analysis_def)
next
  case False
  define sorted where "sorted = sort_key Date activities"
  define ds where "ds = map Date sorted"
  have ne: "sorted \<noteq> []" using False by (simp add: sorted_def sort_key_Nil_iff)
  then have dne: "ds \<noteq> []" by (simp add: ds_def)
  have srt: "List.sorted ds" by (simp add: ds_def sorted_def)
  have dst: "distinct ds" unfolding ds_def sorted_def using dist by (rule distinct_map_sort_key)
  have mult: "\<forall>d \<in> set ds. d mod 86400000000000 = 0"
    using mid by (auto simp: ds_def sorted_def)
  have spread: "(int (length ds) - 1) * 86400000000000 \<le> last ds - hd ds"
    by (rule spread_of_sorted_days [OF srt dst mult _ dne]) simp
  have hd_in: "hd sorted \<in> set activities" and last_in: "last sorted \<in> set activities"
    using ne hd_in_set [of sorted] last_in_set [of sorted] by (simp_all add: sorted_def)
  have hl: "hd ds = Date (hd sorted)" "last ds = Date (last sorted)"
    using ne by (simp_all add: ds_def hd_map last_map)
  define k where "k = int (length ds) - 1"
  have k0: "0 \<le> k" using dne by (cases ds) (simp_all add: k_def)
  have within: "k * 86400000000000 \<le> Date (last sorted) - Date (hd sorted)"
    using spread by (simp add: k_def hl)
  have "Date (last sorted) - Date (hd sorted) \<le> maxDuration"
    using span hd_in last_in by blast
  then have fit: "k * 86400000000000 \<le> maxDuration"
    using within by linarith
  have td: "k + 1 \<le> TotalDays (AnalyzeVolume activities s e)"
  proof (cases "IsZero s \<or> IsZero e")
    case True
    show ?thesis
      unfolding AnalyzeVolume_TotalDays [OF False True] sorted_def [symmetric]
      using k0 within fit by (rule days_between_lower_bound)
  next
    case nz: False
    with win have cover: "s \<le> Date (hd sorted)" "Date (last sorted) \<le> e"
      using hd_in last_in by blast+
    have "k * 86400000000000 \<le> e - s" using within cover by linarith
    with k0 have "k + 1 \<le> days_between s e" using fit by (rule days_between_lower_bound)
    then show ?thesis using nz by (simp add: AnalyzeVolume_TotalDays_window [OF False])
  qed
  have "ActiveDays (AnalyzeVolume activities s e) \<le> int (length sorted)"
    by (simp add: AnalyzeVolume_view sorted_def [symmetric])
  also have "\<dots> = k + 1" by (simp add: ds_def k_def)
  finally show ?thesis using td by linarith
qed

text \<open>
  What holds of the analysis for all buckets and every window: the commits of the daily
  breakdown sum to the total of the commits, the breakdown has an entry for each bucket, and
  the active days are at most the number of buckets.  The active days are at most the total
  days when the buckets lie at midnight UTC of distinct days, less than the longest
  duration apart, and within the window if one is given (no window is given when its start
  or its end is the zero instant).
\<close>

lemma volume_analysis_invariants:
  "(let r = AnalyzeVolume activities hackathonStart hackathonEnd
    in sum_list (map DayCommits (DailyBreakdown r)) = TotalCommits r
       \<and> length (DailyBreakdown r) = length activities
       \<and> ActiveDays r \<le> int (length (DailyBreakdown r))
       \<and> ((IsZero hackathonStart \<or> IsZero hackathonEnd
             \<or> (\<forall>a \<in> set activities. hackathonStart \<le> Date a \<and> Date a \<le> hackathonEnd))
            \<and> distinct (map Date activities)
            \<and> (\<forall>a \<in> set activities. Date a mod 86400000000000 = 0)
            \<and> (\<forall>a \<in> set activities. \<forall>b \<in> set activities. Date b - Date a \<le> maxDuration)
          \<longrightarrow> ActiveDays r \<le> TotalDays r))"
proof -
  let ?r = "AnalyzeVolume activities hackathonStart hackathonEnd"
  have len: "length (DailyBreakdown ?r) = length activities"
    using arg_cong [OF AnalyzeVolume_view(2) [of activities hackathonStart hackathonEnd], of length]
    by simp
  have "sum_list (map DayCommits (DailyBreakdown ?r)) = TotalCommits ?r"
    by (simp add: AnalyzeVolume_view sum_list_sort_key)
  moreover have "ActiveDays ?r \<le> int (length (DailyBreakdown ?r))"
    unfolding len AnalyzeVolume_view(3)
    by (metis length_filter_le length_sort of_nat_le_iff)
  ultimately show ?thesis
    using len active_days_le_total_days [of hackathonStart hackathonEnd activities]
    by (simp add: Let_def)
qed

text \<open>
  Three buckets of 2026-01-03, 2026-01-01 and 2026-01-02, the last without commits, in the
  window from 2025-12-31T12:00:00Z to 2026-01-03T18:00:00Z.
\<close>

lemma volume_analysis_invariants_example:
  "(let activities =
          [\<lparr>Date = 63902995200000000000, Commits = 4, Additions = 0, Deletions = 0\<rparr>,
           \<lparr>Date = 63902822400000000000, Commits = 2, Additions = 0, Deletions = 0\<rparr>,
           \<lparr>Date = 63902908800000000000, Commits = 0, Additions = 0, Deletions = 0\<rparr>];
        r = AnalyzeVolume activities 63902779200000000000 63903060000000000000
    in sum_list (map DayCommits (DailyBreakdown r)) = TotalCommits r
       \<and> length (DailyBreakdown r) = 3
       \<and> ActiveDays r \<le> 3
       \<and> ActiveDays r \<le> TotalDays r)"
  using volume_analysis_invariants
    [of "[\<lparr>Date = 63902995200000000000, Commits = 4, Additions = 0, Deletions = 0\<rparr>,
          \<lparr>Date = 63902822400000000000, Commits = 2, Additions = 0, Deletions = 0\<rparr>,
          \<lparr>Date = 63902908800000000000, Commits = 0, Additions = 0, Deletions = 0\<rparr>]"
        63902779200000000000 63903060000000000000]
  by (simp add: Let_def IsZero_def maxDuration_def)

text \<open>
  Claim C7 says that the active days never exceed the total days and that the commits of
  the daily breakdown add up to the total of the commits, for all buckets and every
  window.  The sum holds.  The bound does not: \<^verbatim>\<open>AnalyzeVolume\<close> takes the total days from
  the window (under the comment \<^verbatim>\<open>Calculate total days in period\<close>) and counts as active
  every bucket with a commit, in the window or not.  Three buckets with a commit each, of
  2026-01-01, 2026-01-02 and 2026-01-03, and the window that starts and ends at
  2026-01-01T00:00:00Z give three active days and one day in total; the consistency score
  of the result, which \<^verbatim>\<open>calculateConsistencyScore\<close> documents with \<^verbatim>\<open>Returns 0-100\<close>, is 200.
\<close>

theorem active_days_exceed_total_days:
  "(let activities =
          [\<lparr>Date = 63902822400000000000, Commits = 1, Additions = 0, Deletions = 0\<rparr>,
           \<lparr>Date = 63902908800000000000, Commits = 1, Additions = 0, Deletions = 0\<rparr>,
           \<lparr>Date = 63902995200000000000, Commits = 1, Additions = 0, Deletions = 0\<rparr>];
        r = AnalyzeVolume activities 63902822400000000000 63902822400000000000
    in ActiveDays r = 3 \<and> TotalDays r = 1 \<and> ConsistencyScore r = Finite 200)"
proof -
  let ?as = "[\<lparr>Date = 63902822400000000000, Commits = 1, Additions = 0, Deletions = 0\<rparr>,
           \<lparr>Date = 63902908800000000000, Commits = 1, Additions = 0, Deletions = 0\<rparr>,
           \<lparr>Date = 63902995200000000000, Commits = 1, Additions = 0, Deletions = 0\<rparr>]"
  let ?r = "AnalyzeVolume ?as 63902822400000000000 63902822400000000000"
  have td: "TotalDays ?r = 1"
    by (simp add: AnalyzeVolume_TotalDays_window IsZero_def days_between_same_instant)
  have ad: "ActiveDays ?r = 3"
    by (simp add: AnalyzeVolume_view(3))
  have "calculateConsistencyScore (sort_key Date ?as) 1 = Finite 200"
    by (simp add: calculateConsistencyScore_def float_eval)
  then have cs: "ConsistencyScore ?r = Finite 200"
    by (simp only: AnalyzeVolume_ConsistencyScore td list.distinct not_False_eq_True)
  show ?thesis unfolding Let_def using td ad cs by simp
qed

text \<open>
  Claim C8 says that the consistency score lies between 0 and 100; so does the comment
  above \<^verbatim>\<open>calculateConsistencyScore\<close>.  A single bucket without commits has mean 0 and
  variance 0, and the score is the quotient \<open>0 / 0\<close>, which is not a number;
  \<^verbatim>\<open>AnalyzeVolume\<close> passes such a bucket on with a total of one day.  Three active
  buckets for a total of one day have an activity rate of 300 and a score of 200.
\<close>

theorem consistency_score_outside_0_100:
  "calculateConsistencyScore
     [\<lparr>Date = 63902822400000000000, Commits = 0, Additions = 0, Deletions = 0\<rparr>] 1 = NaN
   \<and> ConsistencyScore
       (AnalyzeVolume [\<lparr>Date = 63902822400000000000, Commits = 0, Additions = 0, Deletions = 0\<rparr>] 0 0)
     = NaN
   \<and> calculateConsistencyScore
        [\<lparr>Date = 63902822400000000000, Commits = 1, Additions = 0, Deletions = 0\<rparr>,
         \<lparr>Date = 63902908800000000000, Commits = 1, Additions = 0, Deletions = 0\<rparr>,
         \<lparr>Date = 63902995200000000000, Commits = 1, Additions = 0, Deletions = 0\<rparr>] 1
       = Finite 200"
proof -
  let ?zero = "\<lparr>Date = 63902822400000000000, Commits = 0, Additions = 0, Deletions = 0\<rparr>"
  have nan: "calculateConsistencyScore [?zero] 1 = NaN"
    by (simp add: calculateConsistencyScore_def float_eval)
  have "ConsistencyScore (AnalyzeVolume [?zero] 0 0) = calculateConsistencyScore [?zero] 1"
    by (simp add: AnalyzeVolume_def Let_def determinePattern_def empty_analysis_def IsZero_def
        days_between_same_instant)
  moreover have "calculateConsistencyScore
        [\<lparr>Date = 63902822400000000000, Commits = 1, Additions = 0, Deletions = 0\<rparr>,
         \<lparr>Date = 63902908800000000000, Commits = 1, Additions = 0, Deletions = 0\<rparr>,
         \<lparr>Date = 63902995200000000000, Commits = 1, Additions = 0, Deletions = 0\<rparr>] 1
       = Finite 200"
    by (simp add: calculateConsistencyScore_def float_eval)
  ultimately show ?thesis using nan by simp
qed

section \<open>The scorecard\<close>

lemma wrap64_id: "- (2 ^ 63) \<le> x \<Longrightarrow> x < 2 ^ 63 \<Longrightarrow> wrap64 x = x"
  by (simp add: wrap64_def)

lemma wrap64_add: "wrap64 (wrap64 x + y) = wrap64 (x + y)"
  unfolding wrap64_def by (simp add: mod_simps algebra_simps)

lemma sum_scores_wraps:
  "sum_scores (wrap64 tot) checks = wrap64 (tot + sum_list (map Score checks))"
proof (induction checks arbitrary: tot)
  case Nil
  show ?case by simp
next
  case (Cons c cs)
  have "sum_scores (wrap64 tot) (c # cs) = sum_scores (wrap64 (wrap64 tot + Score c)) cs" by simp
  also have "\<dots> = sum_scores (wrap64 (tot + Score c)) cs" by (simp only: wrap64_add)
  also have "\<dots> = wrap64 (tot + Score c + sum_list (map Score cs))" by (rule Cons.IH)
  finally show ?case by (simp add: add.assoc)
qed

lemma calculateOverallScore_wraps:
  "checks \<noteq> [] \<Longrightarrow>
   calculateOverallScore checks = go_quot (wrap64 (sum_list (map Score checks))) (int (length checks))"
  using sum_scores_wraps [of 0 checks] by (simp add: calculateOverallScore_def wrap64_def)

text \<open>
  The five checks of \<^verbatim>\<open>buildChecks\<close> have scores between 0 and 100.  Outside that range
  the sum can leave the 64 bits: five scores of \<open>2\<^sup>6\<^sup>2\<close> add up to \<open>2\<^sup>6\<^sup>2 - 2\<^sup>6\<^sup>4\<close> in the
  register \<^verbatim>\<open>total\<close>, and the quotient is not their mean.
\<close>

lemma overall_score_of_large_scores:
  "calculateOverallScore
     [\<lparr>Name = [], Status = [], Score = 2 ^ 62, Description = []\<rparr>,
      \<lparr>Name = [], Status = [], Score = 2 ^ 62, Description = []\<rparr>,
      \<lparr>Name = [], Status = [], Score = 2 ^ 62, Description = []\<rparr>,
      \<lparr>Name = [], Status = [], Score = 2 ^ 62, Description = []\<rparr>,
      \<lparr>Name = [], Status = [], Score = 2 ^ 62, Description = []\<rparr>]
   = 922337203685477580"
  by (simp add: calculateOverallScore_def wrap64_def go_quot_def)

text \<open>
  Claim C3.  \<^verbatim>\<open>buildScorecard\<close> passes the five checks to \<^verbatim>\<open>calculateOverallScore\<close> and
  the score, with the counts of the alerts by severity, to \<^verbatim>\<open>getOverallStatus\<close>.  For
  five checks with scores between 0 and 100 (the range of a check score) and any counts,
  the overall score is the mean of the five scores truncated to an integer: five times the
  score is at most the sum of the scores, which is less than five times the score plus
  five.  The overall status is \<open>critical\<close> when the map of the counts holds a positive
  count under the severity \<open>critical\<close>, whatever the score; otherwise (no entry, or a count
  that is not positive) it is \<open>healthy\<close> from 80, \<open>warning\<close> from 50 and \<open>critical\<close> below.
\<close>

theorem overall_is_truncated_mean_and_status:
  assumes "\<forall>c \<in> set [c1, c2, c3, c4, c5]. 0 \<le> Score c \<and> Score c \<le> 100"
  shows "(let S = Score c1 + Score c2 + Score c3 + Score c4 + Score c5;
              score = calculateOverallScore [c1, c2, c3, c4, c5];
              status = getOverallStatus score severityCounts
          in score * 5 \<le> S \<and> S < (score + 1) * 5
             \<and> status =
                 (if \<exists>n. severityCounts ''critical'' = Some n \<and> 0 < n then ''critical''
                  else if 80 \<le> score then ''healthy''
                  else if 50 \<le> score then ''warning''
                  else ''critical''))"
proof -
  let ?S = "Score c1 + Score c2 + Score c3 + Score c4 + Score c5"
  have S0: "0 \<le> ?S" and S500: "?S \<le> 500" using assms by simp_all
  then have w: "wrap64 ?S = ?S" by (intro wrap64_id) simp_all
  have "calculateOverallScore [c1, c2, c3, c4, c5] = go_quot (wrap64 ?S) 5"
    by (simp add: calculateOverallScore_wraps add.assoc)
  then have score: "calculateOverallScore [c1, c2, c3, c4, c5] = ?S div 5"
    using S0 by (simp add: w go_quot_nonneg)
  note br = int_div_bracket [OF S0, of 5]
  have crit: "(0 < map_get severityCounts SeverityCritical)
              = (\<exists>n. severityCounts ''critical'' = Some n \<and> 0 < n)"
    by (simp add: map_get_def SeverityCritical_def split: option.splits)
  show ?thesis
    unfolding Let_def getOverallStatus_def score crit
    using br by simp
qed

text \<open>
  The example of the specification: the scores 100, 100, 75, 100 and 100 have mean 95, and
  one critical alert makes the status \<open>critical\<close> all the same.
\<close>

theorem overall_is_truncated_mean_and_status_witness:
  "calculateOverallScore
     [\<lparr>Name = ''License Present'', Status = ''pass'', Score = 100, Description = []\<rparr>,
      \<lparr>Name = ''No Backdated Commits'', Status = ''pass'', Score = 100, Description = []\<rparr>,
      \<lparr>Name = ''No Force Pushes'', Status = ''warn'', Score = 75, Description = []\<rparr>,
      \<lparr>Name = ''Activity Streak'', Status = ''pass'', Score = 100, Description = []\<rparr>,
      \<lparr>Name = ''Conventional Commits'', Status = ''pass'', Score = 100, Description = []\<rparr>]
   = 95
   \<and> getOverallStatus 95 [''critical'' \<mapsto> 1] = ''critical''"
  (is "calculateOverallScore [?c1, ?c2, ?c3, ?c4, ?c5] = _ \<and> getOverallStatus _ ?sev = _")
proof -
  define score where "score = calculateOverallScore [?c1, ?c2, ?c3, ?c4, ?c5]"
  have "score * 5 \<le> 475 \<and> 475 < (score + 1) * 5
        \<and> getOverallStatus score ?sev = ''critical''"
    using overall_is_truncated_mean_and_status [of ?c1 ?c2 ?c3 ?c4 ?c5 ?sev]
    unfolding score_def [symmetric] Let_def
    by simp
  then have s: "score = 95" and st: "getOverallStatus score ?sev = ''critical''"
    by auto
  from st have "getOverallStatus 95 ?sev = ''critical''" by (simp only: s)
  with s show ?thesis unfolding score_def by simp
qed

end
